theory Spec2Isabelle
  imports Main "HOL-Library.Word" "HOL-Library.Signed_Division"
begin

unbundle bit_operations_syntax

section \<open>Machine types\<close>

type_synonym u8 = "8 word"
type_synonym u16 = "16 word"
type_synonym u32 = "32 word"
type_synonym u64 = "64 word"

text \<open>
  An Ethernet address is \<open>ETHER_ADDR_LEN = 6\<close> bytes; the code only ever copies
  it with \<open>memcpy\<close>, so it is kept as a list of bytes.
\<close>

type_synonym mac = "u8 list"

text \<open>
  \<open>htons\<close> and \<open>ntohs\<close> on the little-endian hosts the labs run on: the two bytes
  of a 16-bit value are exchanged.
\<close>

definition htons :: "u16 \<Rightarrow> u16" where
  "htons x = (push_bit 8 x) OR (drop_bit 8 x)"


section \<open>The router (lab1/router/sr\_router.c)\<close>

subsection \<open>Data\<close>

text \<open>
  The structures of \<open>sr_if.h\<close>, \<open>sr_rt.h\<close> and \<open>sr_protocol.h\<close>. Addresses,
  masks and the 16-bit header fields hold the value the host reads from memory
  (network byte order); the code compares and copies them without conversion.
\<close>

record sr_if =
  if_name :: string
  if_addr :: mac
  if_ip :: u32

record sr_rt =
  rt_dest :: u32
  rt_gw :: u32
  rt_mask :: u32
  rt_interface :: string

record sr_ethernet_hdr =
  ether_dhost :: mac
  ether_shost :: mac
  ether_type :: u16

record sr_ip_hdr =
  ip_hl :: "4 word"
  ip_v :: "4 word"
  ip_tos :: u8
  ip_len :: u16
  ip_id :: u16
  ip_off :: u16
  ip_ttl :: u8
  ip_p :: u8
  ip_sum :: u16
  ip_src :: u32
  ip_dst :: u32

text \<open>
  \<open>sr_icmp_t3_hdr_t\<close>: type, code, checksum, \<open>unused\<close>, \<open>next_mtu\<close> and
  \<open>ICMP_DATA_SIZE = 28\<close> bytes of data. Both senders fill the data with
  \<open>memcpy(icmp_hdr->data, ip_hdr, ICMP_DATA_SIZE)\<close>, i.e. with the 20 bytes of the
  inbound IP header followed by the first 8 bytes behind it; the two parts are kept
  as the header record and the byte list.
\<close>

record sr_icmp_t3_hdr =
  icmp_type :: u8
  icmp_code :: u8
  icmp_sum :: u16
  icmp_unused :: u16
  icmp_next_mtu :: u16
  icmp_data_ip :: sr_ip_hdr
  icmp_data_rest :: "u8 list"

text \<open>
  A received frame as the header pointers of the code see it: the Ethernet header,
  the IP header and the bytes behind the IP header.
\<close>

record frame =
  eth :: sr_ethernet_hdr
  ip :: sr_ip_hdr
  payload :: "u8 list"

text \<open>The frame \<open>sr_send_icmp\<close> and \<open>sr_send_icmp_t3\<close> build in fresh memory.\<close>

record icmp_frame =
  o_eth :: sr_ethernet_hdr
  o_ip :: sr_ip_hdr
  o_icmp :: sr_icmp_t3_hdr

text \<open>An ARP cache entry as \<open>sr_arpcache_lookup\<close> hands it out.\<close>

record sr_arpentry =
  arp_mac :: mac
  arp_ip :: u32

text \<open>
  The router instance. The ARP cache lives in \<open>sr_arpcache.c\<close>; the router only
  calls \<open>sr_arpcache_lookup\<close> and \<open>sr_arpcache_queuereq\<close> on it, so the cache is
  the lookup function, and queueing is recorded as an event.
\<close>

record sr_instance =
  if_list :: "sr_if list"
  routing_table :: "sr_rt list"
  cache :: "u32 \<Rightarrow> sr_arpentry option"

text \<open>
  Everything \<open>sr_handle_ip\<close> does to the outside, in the order it does it:
  a cache lookup, a received or a built frame handed to \<open>sr_send_packet\<close>
  (frame, length, interface name), or a frame queued on an ARP request (target
  address, frame, length, interface name).
\<close>

datatype event =
    ArpLookup u32
  | SendPacket frame u32 string
  | SendIcmpPacket icmp_frame u32 string
  | ArpQueueReq u32 frame u32 string

text \<open>Constants of \<open>sr_protocol.h\<close>.\<close>

definition sizeof_ethernet_hdr :: u64 where "sizeof_ethernet_hdr = 14"
definition sizeof_ip_hdr :: u64 where "sizeof_ip_hdr = 20"
definition sizeof_icmp_t3_hdr :: u64 where "sizeof_icmp_t3_hdr = 36"
definition IP_DF :: u16 where "IP_DF = 0x4000"
definition ip_protocol_icmp :: u8 where "ip_protocol_icmp = 1"
definition ethertype_ip :: u16 where "ethertype_ip = 0x0800"

subsection \<open>Route lookup\<close>

text \<open>
  The loop of \<open>sr_rt_for_dst\<close>, with its two locals \<open>best_rt\<close> and
  \<open>longest_mask\<close>.
\<close>

fun rt_walk :: "u32 \<Rightarrow> sr_rt list \<Rightarrow> sr_rt option \<Rightarrow> u32 \<Rightarrow> sr_rt option" where
  "rt_walk dst [] best_rt longest_mask = best_rt"
| "rt_walk dst (r # rs) best_rt longest_mask =
     (let d1 = rt_mask r AND dst in
      if d1 = rt_dest r \<and> (longest_mask = 0 \<or> rt_mask r > longest_mask)
      then rt_walk dst rs (Some r) (rt_mask r)
      else rt_walk dst rs best_rt longest_mask)"

definition sr_rt_for_dst :: "sr_instance \<Rightarrow> u32 \<Rightarrow> sr_rt option" where
  "sr_rt_for_dst sr dst = rt_walk dst (routing_table sr) None 0"

text \<open>The test of the loop body: the entry matches the destination.\<close>

definition rt_matches :: "u32 \<Rightarrow> sr_rt \<Rightarrow> bool" where
  "rt_matches dst r \<longleftrightarrow> rt_mask r AND dst = rt_dest r"

text \<open>
  The loop invariant of \<open>sr_rt_for_dst\<close>: \<open>longest_mask\<close> is the mask of
  \<open>best_rt\<close>, and 0 as long as there is none.
\<close>

definition rt_inv :: "u32 \<Rightarrow> sr_rt option \<Rightarrow> u32 \<Rightarrow> bool" where
  "rt_inv dst best longest \<longleftrightarrow>
     (case best of None \<Rightarrow> longest = 0 | Some b \<Rightarrow> longest = rt_mask b \<and> rt_matches dst b)"

subsection \<open>Interfaces\<close>

text \<open>
  \<open>sr_get_interface\<close> (\<open>sr_if.c\<close>) walks the interface list and returns the first
  interface of that name, or 0.
\<close>

fun sr_get_interface_walk :: "sr_if list \<Rightarrow> string \<Rightarrow> sr_if option" where
  "sr_get_interface_walk [] name = None"
| "sr_get_interface_walk (i # ifs) name =
     (if if_name i = name then Some i else sr_get_interface_walk ifs name)"

definition sr_get_interface :: "sr_instance \<Rightarrow> string \<Rightarrow> sr_if option" where
  "sr_get_interface sr name = sr_get_interface_walk (if_list sr) name"

text \<open>The \<open>for_me\<close> loop of \<open>sr_handle_ip\<close>.\<close>

fun for_me_walk :: "sr_if list \<Rightarrow> u32 \<Rightarrow> bool" where
  "for_me_walk [] dst = False"
| "for_me_walk (i # ifs) dst = (if if_ip i = dst then True else for_me_walk ifs dst)"

subsection \<open>ICMP replies\<close>

text \<open>
  \<open>cksum\<close> is defined in \<open>sr_utils.c\<close>. It is applied to the 20 bytes of an IP
  header and to the 36 bytes of an ICMP structure; the two uses are the parameters
  \<open>ck_ip\<close> and \<open>ck_icmp\<close> of the functions below.

  Both senders read the 8 bytes behind the inbound IP header: the \<open>memcpy\<close> of
  \<open>ICMP_DATA_SIZE = 28\<close> bytes takes the 20 bytes of the header and these 8, and
  \<open>sr_send_icmp\<close> copies the \<open>unused\<close> and \<open>next_mtu\<close> fields out of them. A
  frame that ends earlier makes the read run past the buffer, and a missing
  interface is a null pointer dereference: both are the result \<open>None\<close>.
\<close>

definition rd16 :: "u8 list \<Rightarrow> nat \<Rightarrow> u16" where
  "rd16 bs i = (ucast (bs ! i)) OR push_bit 8 (ucast (bs ! (i + 1)))"

definition icmp_reply_ip_hdr :: "(sr_ip_hdr \<Rightarrow> u16) \<Rightarrow> sr_ip_hdr \<Rightarrow> sr_if \<Rightarrow> sr_ip_hdr" where
  "icmp_reply_ip_hdr ck_ip ip_hdr rec_iface =
     (let h = \<lparr> ip_hl = 5, ip_v = ip_v ip_hdr, ip_tos = ip_tos ip_hdr,
                 ip_len = htons (ucast (sizeof_icmp_t3_hdr + sizeof_ip_hdr)),
                 ip_id = ip_id ip_hdr, ip_off = htons IP_DF, ip_ttl = 60,
                 ip_p = ip_protocol_icmp, ip_sum = 0,
                 ip_src = if_ip rec_iface, ip_dst = ip_src ip_hdr \<rparr>
      in h\<lparr> ip_sum := ck_ip h \<rparr>)"

definition icmp_reply_eth_hdr :: "sr_ethernet_hdr \<Rightarrow> sr_if \<Rightarrow> sr_ethernet_hdr" where
  "icmp_reply_eth_hdr ethernet_hdr rec_iface =
     \<lparr> ether_dhost = ether_shost ethernet_hdr, ether_shost = if_addr rec_iface,
       ether_type = htons ethertype_ip \<rparr>"

definition icmp_frame_len :: u32 where
  "icmp_frame_len = ucast (sizeof_ethernet_hdr + sizeof_ip_hdr + sizeof_icmp_t3_hdr)"

definition sr_send_icmp ::
  "(sr_ip_hdr \<Rightarrow> u16) \<Rightarrow> (sr_icmp_t3_hdr \<Rightarrow> u16) \<Rightarrow> sr_instance \<Rightarrow> frame \<Rightarrow> u8 \<Rightarrow> u8 \<Rightarrow> string
     \<Rightarrow> event list option" where
  "sr_send_icmp ck_ip ck_icmp sr packet icmp_type' icmp_code' interface =
     (case sr_get_interface sr interface of
        None \<Rightarrow> None
      | Some rec_iface \<Rightarrow>
         (let bs = payload packet in
             if length bs < 8 then None
             else
               let icmp0 = \<lparr> icmp_type = icmp_type', icmp_code = icmp_code', icmp_sum = 0,
                             icmp_unused = rd16 bs 4, icmp_next_mtu = rd16 bs 6,
                             icmp_data_ip = ip packet, icmp_data_rest = take 8 bs \<rparr>;
                   icmp_hdr = icmp0\<lparr> icmp_sum := ck_icmp icmp0 \<rparr>;
                   icmp_packet = \<lparr> o_eth = icmp_reply_eth_hdr (eth packet) rec_iface,
                                   o_ip = icmp_reply_ip_hdr ck_ip (ip packet) rec_iface,
                                   o_icmp = icmp_hdr \<rparr>
               in Some [SendIcmpPacket icmp_packet icmp_frame_len interface]))"

definition sr_send_icmp_t3 ::
  "(sr_ip_hdr \<Rightarrow> u16) \<Rightarrow> (sr_icmp_t3_hdr \<Rightarrow> u16) \<Rightarrow> sr_instance \<Rightarrow> frame \<Rightarrow> u8 \<Rightarrow> u8 \<Rightarrow> string
     \<Rightarrow> event list option" where
  "sr_send_icmp_t3 ck_ip ck_icmp sr packet icmp_type' icmp_code' interface =
     (case sr_get_interface sr interface of
        None \<Rightarrow> None
      | Some rec_if \<Rightarrow>
         (let bs = payload packet in
             if length bs < 8 then None
             else
               let icmp0 = \<lparr> icmp_type = icmp_type', icmp_code = icmp_code', icmp_sum = 0,
                             icmp_unused = 0, icmp_next_mtu = htons 1500,
                             icmp_data_ip = ip packet, icmp_data_rest = take 8 bs \<rparr>;
                   icmp_hdr = icmp0\<lparr> icmp_sum := ck_icmp icmp0 \<rparr>;
                   icmp_packet = \<lparr> o_eth = icmp_reply_eth_hdr (eth packet) rec_if,
                                   o_ip = icmp_reply_ip_hdr ck_ip (ip packet) rec_if,
                                   o_icmp = icmp_hdr \<rparr>
               in Some [SendIcmpPacket icmp_packet icmp_frame_len interface]))"

subsection \<open>IP input\<close>

text \<open>
  The checksum test at the head of \<open>sr_handle_ip\<close>: the stored sum is compared
  with \<open>cksum\<close> of the header whose sum field is zeroed.
\<close>

definition ip_sum_ok :: "(sr_ip_hdr \<Rightarrow> u16) \<Rightarrow> sr_ip_hdr \<Rightarrow> bool" where
  "ip_sum_ok ck_ip ip_hdr \<longleftrightarrow> ip_sum ip_hdr = ck_ip (ip_hdr\<lparr> ip_sum := 0 \<rparr>)"

text \<open>
  \<open>sr_handle_ip\<close>. \<open>len\<close> is the \<open>unsigned int\<close> length of the frame; the
  comparison with \<open>sizeof\<close> is done in \<open>size_t\<close>, here 64 bits. The frame fields
  are what the header pointers of the code see in the buffer. The result is the
  list of events, \<open>None\<close> where the code reads memory it does not have.
\<close>

definition sr_handle_ip ::
  "(sr_ip_hdr \<Rightarrow> u16) \<Rightarrow> (sr_icmp_t3_hdr \<Rightarrow> u16) \<Rightarrow> sr_instance \<Rightarrow> frame \<Rightarrow> u32 \<Rightarrow> string
     \<Rightarrow> event list option" where
  "sr_handle_ip ck_ip ck_icmp sr packet len interface =
     (if (ucast len :: u64) - sizeof_ethernet_hdr < sizeof_ip_hdr then Some []
      else if \<not> ip_sum_ok ck_ip (ip packet) then Some []
      else if for_me_walk (if_list sr) (ip_dst (ip packet)) then
        (if ip_p (ip packet) = ip_protocol_icmp
         then sr_send_icmp ck_ip ck_icmp sr packet 0 0 interface
         else sr_send_icmp_t3 ck_ip ck_icmp sr packet 3 3 interface)
      else
        let hdr1 = (ip packet)\<lparr> ip_ttl := ip_ttl (ip packet) - 1 \<rparr>;
            packet1 = packet\<lparr> ip := hdr1 \<rparr>
        in if ip_ttl hdr1 = 0 then sr_send_icmp_t3 ck_ip ck_icmp sr packet1 11 0 interface
           else
             let hdr2 = hdr1\<lparr> ip_sum := ck_ip (hdr1\<lparr> ip_sum := 0 \<rparr>) \<rparr>;
                 packet2 = packet\<lparr> ip := hdr2 \<rparr>
             in case sr_rt_for_dst sr (ip_dst hdr2) of
                  None \<Rightarrow> sr_send_icmp_t3 ck_ip ck_icmp sr packet2 3 0 interface
                | Some out_rt \<Rightarrow>
                   (case cache sr (rt_gw out_rt) of
                      Some entry \<Rightarrow>
                        (case sr_get_interface sr (rt_interface out_rt) of
                           None \<Rightarrow> None
                         | Some if_entry \<Rightarrow>
                            Some [ArpLookup (rt_gw out_rt),
                                  SendPacket
                                    (packet2\<lparr> eth := (eth packet2)\<lparr> ether_shost := if_addr if_entry,
                                                                     ether_dhost := arp_mac entry \<rparr> \<rparr>)
                                    len (rt_interface out_rt)])
                    | None \<Rightarrow>
                        Some [ArpLookup (rt_gw out_rt),
                              ArpQueueReq (rt_gw out_rt) packet2 len (rt_interface out_rt)]))"

section \<open>cTCP (lab3/ctcp.c)\<close>

subsection \<open>Data\<close>

text \<open>
  \<open>ctcp_segment_t\<close> (\<open>ctcp_sys.h\<close>). The code reads every field through
  \<open>ntohl\<close>/\<open>ntohs\<close> and writes it through \<open>htonl\<close>/\<open>htons\<close>; the record holds
  the decoded values, so \<open>segment->flags & htonl(FIN)\<close> is \<open>seg_flags s AND FIN\<close>.
  \<open>seg_data\<close> are the bytes behind the header.
\<close>

record ctcp_segment =
  seg_seqno :: u32
  seg_ackno :: u32
  seg_len :: u16
  seg_flags :: u32
  seg_window :: u16
  seg_cksum :: u16
  seg_data :: "u8 list"

record ctcp_config =
  recv_window :: u16
  send_window :: u16
  timer :: int
  rt_timeout :: int

text \<open>
  \<open>struct ctcp_state\<close>. The connection object \<open>conn\<close> belongs to the library; of
  it the state keeps what the code does to it: \<open>conn_sent\<close>, the segments handed
  to \<open>conn_send\<close>, and \<open>conn_outputs\<close>, the byte strings handed to \<open>conn_output\<close>
  (the empty string is the end-of-file write), both oldest first. The fields
  \<open>segments\<close>, \<open>last_received_segment\<close> and \<open>last_send_segment\<close> are never used
  after \<open>ctcp_init\<close> and are left out, as are the list links.
\<close>

record ctcp_state =
  conn_sent :: "ctcp_segment list"
  conn_outputs :: "u8 list list"
  cfg :: ctcp_config
  seqno :: u32
  ackno :: u32
  retransmition :: u16
  last_acked :: bool
  last_retransmit_time :: int
  send_fin :: bool
  receive_fin :: bool
  receive_ack_fin :: bool
  unacked :: "ctcp_segment list"
  unoutput :: "ctcp_segment list"

text \<open>What \<open>conn_input\<close> returns: 0, -1 at end of file, or the bytes read.\<close>

datatype conn_input = NoData | EndOfFile | Data "u8 list"

text \<open>
  Constants of \<open>ctcp_sys.h\<close> and \<open>ctcp.h\<close>: the flag bits, the size of the
  segment header and the largest payload of a segment.
\<close>

definition FIN :: u32 where "FIN = 0x01"
definition ACK :: u32 where "ACK = 0x10"
definition sizeof_ctcp_segment :: u64 where "sizeof_ctcp_segment = 20"
definition MAX_SEG_DATA_SIZE :: nat where "MAX_SEG_DATA_SIZE = 1440"

subsection \<open>Helpers\<close>

text \<open>
  \<open>on_air\<close>. \<open>data_len\<close> is a \<open>uint16_t\<close>; each \<open>+=\<close> is computed in the type of
  its right-hand side (\<open>uint32_t\<close>, then \<open>size_t\<close>) and cut back to 16 bits.
\<close>

definition on_air :: "ctcp_state \<Rightarrow> u16" where
  "on_air state =
     (if length (unacked state) \<noteq> 0 then
        let front = hd (unacked state);
            back = last (unacked state);
            data_len0 = (0 :: u16);
            data_len1 = (ucast ((ucast data_len0 :: u32) + (seg_seqno back - seg_seqno front)) :: u16);
            data_len2 = (ucast ((ucast data_len1 :: u64)
                           + ((ucast (seg_len back) :: u64) - sizeof_ctcp_segment)) :: u16)
        in data_len2
      else 0)"

text \<open>
  \<open>corrupted\<close>. \<open>cksum\<close> is defined in \<open>ctcp_utils.c\<close>; it is the parameter \<open>ck\<close>,
  applied to the segment whose checksum field is zeroed.
\<close>

definition corrupted :: "(ctcp_segment \<Rightarrow> u16) \<Rightarrow> ctcp_segment \<Rightarrow> bool" where
  "corrupted ck segment \<longleftrightarrow> seg_cksum segment \<noteq> ck (segment\<lparr> seg_cksum := 0 \<rparr>)"

definition ack_segment :: "(ctcp_segment \<Rightarrow> u16) \<Rightarrow> ctcp_state \<Rightarrow> ctcp_segment" where
  "ack_segment ck state =
     (let ack = \<lparr> seg_seqno = seqno state, seg_ackno = ackno state,
                   seg_len = ucast sizeof_ctcp_segment, seg_flags = 0 OR ACK,
                   seg_window = recv_window (cfg state), seg_cksum = 0, seg_data = [] \<rparr>
      in ack\<lparr> seg_cksum := ck ack \<rparr>)"

definition send_ack_segment :: "(ctcp_segment \<Rightarrow> u16) \<Rightarrow> ctcp_state \<Rightarrow> ctcp_state" where
  "send_ack_segment ck state = state\<lparr> conn_sent := conn_sent state @ [ack_segment ck state] \<rparr>"

text \<open>\<open>send_fin_segment\<close> and \<open>send_data_segment\<close> return the segment they sent.\<close>

definition send_fin_segment :: "(ctcp_segment \<Rightarrow> u16) \<Rightarrow> ctcp_state \<Rightarrow> ctcp_segment \<times> ctcp_state" where
  "send_fin_segment ck state =
     (let fin0 = \<lparr> seg_seqno = seqno state, seg_ackno = ackno state,
                    seg_len = ucast sizeof_ctcp_segment, seg_flags = 0 OR FIN,
                    seg_window = recv_window (cfg state), seg_cksum = 0, seg_data = [] \<rparr>;
          fin = fin0\<lparr> seg_cksum := ck fin0 \<rparr>
      in (fin, state\<lparr> conn_sent := conn_sent state @ [fin] \<rparr>))"

definition send_data_segment ::
  "(ctcp_segment \<Rightarrow> u16) \<Rightarrow> ctcp_state \<Rightarrow> u8 list \<Rightarrow> ctcp_segment \<times> ctcp_state" where
  "send_data_segment ck state buf =
     (let seg0 = \<lparr> seg_seqno = seqno state, seg_ackno = ackno state,
                    seg_len = ucast (sizeof_ctcp_segment + of_nat (length buf)),
                    seg_flags = 0 OR ACK,
                    seg_window = recv_window (cfg state), seg_cksum = 0, seg_data = buf \<rparr>;
          seg = seg0\<lparr> seg_cksum := ck seg0 \<rparr>
      in (seg, state\<lparr> conn_sent := conn_sent state @ [seg] \<rparr>))"

subsection \<open>Callbacks\<close>

definition ctcp_init :: "ctcp_config \<Rightarrow> ctcp_state" where
  "ctcp_init c =
     \<lparr> conn_sent = [], conn_outputs = [], cfg = c, seqno = 1, ackno = 1,
       retransmition = 0, last_acked = True, last_retransmit_time = 0,
       send_fin = False, receive_fin = False, receive_ack_fin = False,
       unacked = [], unoutput = [] \<rparr>"

text \<open>
  \<open>ctcp_read\<close>. \<open>input\<close> is what \<open>conn_input\<close> returns when it is called, \<open>now\<close>
  the value of \<open>current_time()\<close>. In the end-of-file branch the source breaks off
  in the middle of a statement that fills a \<open>bbr_segment_t\<close> nothing else reads;
  the branch is the one of the statements around it.
\<close>

definition ctcp_read :: "(ctcp_segment \<Rightarrow> u16) \<Rightarrow> conn_input \<Rightarrow> int \<Rightarrow> ctcp_state \<Rightarrow> ctcp_state" where
  "ctcp_read ck input now state =
     (if send_window (cfg state) \<le> on_air state then state
      else if send_fin state then state
      else case input of
             NoData \<Rightarrow> state
           | EndOfFile \<Rightarrow>
               (let (fin, state1) = send_fin_segment ck state;
                    state2 = state1\<lparr> seqno := seqno state1 + 1, send_fin := True,
                                     retransmition := 0, last_retransmit_time := now \<rparr>
                in state2\<lparr> unacked := unacked state2 @ [fin] \<rparr>)
           | Data buf \<Rightarrow>
               (let (segment, state1) = send_data_segment ck state buf;
                    state2 = state1\<lparr> seqno := seqno state1 + of_nat (length buf),
                                     retransmition := 0, last_retransmit_time := now \<rparr>
                in state2\<lparr> unacked := unacked state2 @ [segment] \<rparr>))"

text \<open>
  \<open>ctcp_output\<close>. \<open>bufspace\<close> is \<open>conn_bufspace\<close>: the room the library reports
  after the writes made so far. The loop returns the remaining queue, the
  acknowledgement number, the writes, \<open>has_output\<close>, and whether it left through
  the \<open>return\<close> in its body.
\<close>

definition seg_data_len :: "ctcp_segment \<Rightarrow> u16" where
  "seg_data_len s = ucast ((ucast (seg_len s) :: u64) - sizeof_ctcp_segment)"

fun output_walk ::
  "(u8 list list \<Rightarrow> nat) \<Rightarrow> ctcp_segment list \<Rightarrow> u32 \<Rightarrow> u8 list list \<Rightarrow> bool
     \<Rightarrow> ctcp_segment list \<times> u32 \<times> u8 list list \<times> bool \<times> bool" where
  "output_walk bufspace [] ackno' outs has_output = ([], ackno', outs, has_output, False)"
| "output_walk bufspace (s # rest) ackno' outs has_output =
     (if ackno' = seg_seqno s then
        let buf_space = bufspace outs;
            data_len = seg_data_len s
        in if buf_space < unat data_len then (s # rest, ackno', outs, has_output, True)
           else
             let outs1 = outs @ [take (unat data_len) (seg_data s)];
                 ackno1 = ackno' + ucast data_len
             in if seg_flags s AND FIN \<noteq> 0
                then output_walk bufspace rest (ackno1 + 1) (outs1 @ [[]]) True
                else output_walk bufspace rest ackno1 outs1 True
      else (s # rest, ackno', outs, has_output, False))"

definition ctcp_output ::
  "(ctcp_segment \<Rightarrow> u16) \<Rightarrow> (u8 list list \<Rightarrow> nat) \<Rightarrow> ctcp_state \<Rightarrow> ctcp_state" where
  "ctcp_output ck bufspace state =
     (case output_walk bufspace (unoutput state) (ackno state) (conn_outputs state) False of
        (rest, ackno', outs, has_output, returned) \<Rightarrow>
          let state1 = state\<lparr> unoutput := rest, ackno := ackno', conn_outputs := outs \<rparr>
          in if returned then state1
             else if has_output then send_ack_segment ck state1
             else state1)"

text \<open>
  What the delivery of a run of queued segments amounts to: the acknowledgement
  number behind the run, whether each segment starts where the one before ends,
  and the writes to the sink (a FIN adds the empty write).
\<close>

fun ackno_after :: "u32 \<Rightarrow> ctcp_segment list \<Rightarrow> u32" where
  "ackno_after a [] = a"
| "ackno_after a (s # ss) =
     ackno_after (a + ucast (seg_data_len s) + (if seg_flags s AND FIN \<noteq> 0 then 1 else 0)) ss"

fun contiguous :: "u32 \<Rightarrow> ctcp_segment list \<Rightarrow> bool" where
  "contiguous a [] = True"
| "contiguous a (s # ss) = (seg_seqno s = a \<and> contiguous (ackno_after a [s]) ss)"

fun writes_of :: "ctcp_segment list \<Rightarrow> u8 list list" where
  "writes_of [] = []"
| "writes_of (s # ss) =
     take (unat (seg_data_len s)) (seg_data s)
       # (if seg_flags s AND FIN \<noteq> 0 then [[]] else []) @ writes_of ss"

text \<open>The order of the two queues: by sequence number.\<close>

abbreviation seq_lt :: "ctcp_segment \<Rightarrow> ctcp_segment \<Rightarrow> bool" where
  "seq_lt x y \<equiv> seg_seqno x < seg_seqno y"

text \<open>
  The parts of \<open>ctcp_receive\<close>. The duplicate test walks the first \<open>ind\<close> nodes of
  \<open>unoutput\<close>, \<open>ind\<close> being the length cut to a \<open>uint16_t\<close>.
\<close>

definition carries_data_or_fin :: "ctcp_segment \<Rightarrow> bool" where
  "carries_data_or_fin segment \<longleftrightarrow>
     (ucast (seg_len segment) :: u64) - sizeof_ctcp_segment > 0 \<or> seg_flags segment AND FIN \<noteq> 0"

fun dup_walk :: "ctcp_segment list \<Rightarrow> u32 \<Rightarrow> bool" where
  "dup_walk [] sq = False"
| "dup_walk (u # us) sq = (if seg_seqno u = sq then True else dup_walk us sq)"

definition is_duplicate :: "ctcp_state \<Rightarrow> ctcp_segment \<Rightarrow> bool" where
  "is_duplicate state segment \<longleftrightarrow>
     length (unoutput state) \<noteq> 0 \<and>
     dup_walk (take (length (unoutput state) mod 65536) (unoutput state)) (seg_seqno segment)"

fun ack_walk :: "u32 \<Rightarrow> ctcp_segment list \<Rightarrow> ctcp_segment list" where
  "ack_walk a [] = []"
| "ack_walk a (u # us) = (if seg_seqno u < a then ack_walk a us else u # us)"

definition deal_with_ack :: "ctcp_state \<Rightarrow> ctcp_segment \<Rightarrow> ctcp_state" where
  "deal_with_ack state segment =
     (if seg_flags segment AND ACK \<noteq> 0 then
        let state1 = state\<lparr> unacked := ack_walk (seg_ackno segment) (unacked state) \<rparr>
        in if send_fin state1 then state1\<lparr> receive_ack_fin := True \<rparr> else state1
      else state)"

definition deal_with_fin :: "ctcp_state \<Rightarrow> ctcp_segment \<Rightarrow> ctcp_state" where
  "deal_with_fin state segment =
     (if seg_flags segment AND FIN \<noteq> 0 then state\<lparr> receive_fin := True \<rparr> else state)"

text \<open>
  The walk over neighbouring nodes in the last branch of the insertion: the new
  segment is linked in behind every node it lies strictly between.
\<close>

fun insert_walk :: "ctcp_segment \<Rightarrow> ctcp_segment list \<Rightarrow> ctcp_segment list" where
  "insert_walk segment (c # n # rest) =
     (if seg_seqno segment > seg_seqno c \<and> seg_seqno segment < seg_seqno n
      then c # segment # insert_walk segment (n # rest)
      else c # insert_walk segment (n # rest))"
| "insert_walk segment us = us"

definition insert_unoutput :: "ctcp_state \<Rightarrow> ctcp_segment \<Rightarrow> ctcp_state" where
  "insert_unoutput state segment =
     (if carries_data_or_fin segment then
        (if length (unoutput state) \<noteq> 0 then
           let first_unoutput_segment = hd (unoutput state);
               last_unoutput_segment = last (unoutput state)
           in if seg_seqno segment < seg_seqno first_unoutput_segment
              then state\<lparr> unoutput := segment # unoutput state \<rparr>
              else if seg_seqno segment > seg_seqno last_unoutput_segment
              then state\<lparr> unoutput := unoutput state @ [segment] \<rparr>
              else state\<lparr> unoutput := insert_walk segment (unoutput state) \<rparr>
         else state\<lparr> unoutput := unoutput state @ [segment] \<rparr>)
      else state)"

definition ctcp_receive ::
  "(ctcp_segment \<Rightarrow> u16) \<Rightarrow> (u8 list list \<Rightarrow> nat) \<Rightarrow> ctcp_state \<Rightarrow> ctcp_segment \<Rightarrow> ctcp_state" where
  "ctcp_receive ck bufspace state segment =
     (if corrupted ck segment then state
      else if seg_seqno segment < ackno state \<and> carries_data_or_fin segment
      then send_ack_segment ck state
      else if is_duplicate state segment then send_ack_segment ck state
      else
        let state1 = deal_with_ack state segment;
            state2 = deal_with_fin state1 segment;
            state3 = insert_unoutput state2 segment
        in ctcp_output ck bufspace state3)"

text \<open>A run of \<open>ctcp_receive\<close> over the segments as they arrive.\<close>

fun receive_all ::
  "(ctcp_segment \<Rightarrow> u16) \<Rightarrow> (u8 list list \<Rightarrow> nat) \<Rightarrow> ctcp_state \<Rightarrow> ctcp_segment list \<Rightarrow> ctcp_state" where
  "receive_all ck bufspace state [] = state"
| "receive_all ck bufspace state (s # ss) = receive_all ck bufspace (ctcp_receive ck bufspace state s) ss"

text \<open>
  The state of the receiver while the segments \<open>segs\<close> of a stream arrive in some
  order, \<open>R\<close> being those received so far: a front part of the stream has been
  written to the sink behind the writes \<open>outs0\<close> made before, the acknowledgement
  number stands behind it, the queue holds what has been received of the rest, and
  the next segment of the stream is still missing.
\<close>

definition delivered_upto ::
  "u32 \<Rightarrow> u8 list list \<Rightarrow> ctcp_segment list \<Rightarrow> ctcp_segment set \<Rightarrow> ctcp_state \<Rightarrow> bool" where
  "delivered_upto a outs0 segs R st \<longleftrightarrow>
     (\<exists>front todo. segs = front @ todo \<and> ackno st = ackno_after a front \<and> set front \<subseteq> R
        \<and> unoutput st = filter (\<lambda>u. u \<in> R) todo \<and> (todo \<noteq> [] \<longrightarrow> hd todo \<notin> R)
        \<and> conn_outputs st = outs0 @ writes_of front)"

section \<open>The congestion controller (lab3/ctcp\_bbr.c)\<close>

subsection \<open>Data\<close>

datatype bbr_mode = BBR_STARTUP | BBR_DRAIN | BBR_PROBE_BW | BBR_PROBE_RTT

text \<open>
  \<open>struct bbr_state\<close> (\<open>ctcp_bbr.h\<close>). The gains are \<open>int\<close> fields, the time
  stamps are \<open>long\<close>; the two filters are arrays of ten entries.
\<close>

record bbr_state =
  pacing_gain :: int
  cwnd_gain :: int
  mode :: bbr_mode
  max_btlbw :: u32
  max_btlbw_stamp :: int
  min_rtt_us :: u32
  min_rtt_stamp :: int
  pacing_rate :: u32
  cwnd :: u32
  BtlBwFilter :: "u32 list"
  RTpropFilter :: "u32 list"
  cycle_idx :: int
  full_bw :: u32
  full_bw_cnt :: int
  inflight :: u32
  probe_rtt_done_stamp :: int
  restore_cwnd :: bool
  prior_cwnd :: u32
  delivered_time :: int
  delivered :: u64
  next_send_time :: int

text \<open>
  The constants. The gains are declared \<open>float\<close>, but every initialiser is a
  quotient of two \<open>int\<close> constants, which C divides as integers before it
  converts the result; the values are whole numbers, and storing them in the
  \<open>int\<close> fields of the state changes nothing.
\<close>

definition BBR_UNIT :: int where "BBR_UNIT = 2 ^ 8"
definition CYCLE_LEN :: int where "CYCLE_LEN = 8"
definition BBR_BW_RTTS :: nat where "BBR_BW_RTTS = 8 + 2"
definition bbr_probe_rtt_mode_ms :: int where "bbr_probe_rtt_mode_ms = 200"
definition bbr_high_gain :: int where "bbr_high_gain = 2885 div 1000"
definition bbr_drain_gain :: int where "bbr_drain_gain = 1000 div 2885"
definition bbr_cwnd_gain :: int where "bbr_cwnd_gain = 2"
definition bbr_pacing_gain :: "int list" where
  "bbr_pacing_gain = [5 div 4, 3 div 4, 1, 1, 1, 1, 1, 1]"
definition bbr_cycle_rand :: nat where "bbr_cycle_rand = 7"
definition bbr_full_bw_cnt :: int where "bbr_full_bw_cnt = 3"

subsection \<open>Mode changes\<close>

text \<open>
  \<open>bbr_full_bw_reached\<close>. The count is an \<open>int\<close> and the bound a \<open>uint32_t\<close>, so C
  compares the two as unsigned 32-bit values: a negative count reads as a large one.
\<close>

definition bbr_full_bw_reached :: "bbr_state \<Rightarrow> bool" where
  "bbr_full_bw_reached bbr \<longleftrightarrow> full_bw_cnt bbr mod 2 ^ 32 \<ge> bbr_full_bw_cnt"

definition bbr_reset_startup_mode :: "bbr_state \<Rightarrow> bbr_state" where
  "bbr_reset_startup_mode bbr =
     bbr\<lparr> mode := BBR_STARTUP, pacing_gain := bbr_high_gain, cwnd_gain := bbr_high_gain \<rparr>"

text \<open>\<open>rnd\<close> is the value \<open>rand()\<close> returns, a number from 0 to \<open>RAND_MAX\<close>.\<close>

definition bbr_reset_probe_bw_mode :: "nat \<Rightarrow> bbr_state \<Rightarrow> bbr_state" where
  "bbr_reset_probe_bw_mode rnd bbr =
     bbr\<lparr> mode := BBR_PROBE_BW, pacing_gain := BBR_UNIT, cwnd_gain := bbr_cwnd_gain,
          cycle_idx := CYCLE_LEN - 1 - int (rnd mod bbr_cycle_rand) \<rparr>"

definition bbr_reset_mode :: "nat \<Rightarrow> bbr_state \<Rightarrow> bbr_state" where
  "bbr_reset_mode rnd bbr =
     (if \<not> bbr_full_bw_reached bbr then bbr_reset_startup_mode bbr
      else bbr_reset_probe_bw_mode rnd bbr)"

definition bbr_save_cwnd :: "bbr_state \<Rightarrow> bbr_state" where
  "bbr_save_cwnd bbr = bbr\<lparr> prior_cwnd := cwnd bbr, restore_cwnd := True \<rparr>"

subsection \<open>Gain cycling\<close>

text \<open>
  \<open>bbr_advance_cycle_phase\<close>. \<open>%\<close> on \<open>int\<close> truncates towards zero (\<open>smod\<close>).
  The addition overflows when the index is \<open>INT_MAX\<close>, and an index outside the
  table of eight gains is an out-of-bounds read: both are the result \<open>None\<close>.
\<close>

definition bbr_advance_cycle_phase :: "bbr_state \<Rightarrow> bbr_state option" where
  "bbr_advance_cycle_phase bbr =
     (if cycle_idx bbr + 1 > 2147483647 then None
      else
        let idx = (cycle_idx bbr + 1) smod (CYCLE_LEN - 1)
        in if 0 \<le> idx \<and> idx < int (length bbr_pacing_gain)
           then Some (bbr\<lparr> cycle_idx := idx, pacing_gain := bbr_pacing_gain ! nat idx \<rparr>)
           else None)"

definition bbr_update_cycle_phase :: "bbr_state \<Rightarrow> bbr_state option" where
  "bbr_update_cycle_phase bbr =
     (if mode bbr = BBR_PROBE_BW then bbr_advance_cycle_phase bbr else Some bbr)"

text \<open>Successive rounds in \<open>PROBE_BW\<close>: \<open>bbr_update_cycle_phase\<close> \<open>n\<close> times.\<close>

fun cycle_rounds :: "nat \<Rightarrow> bbr_state \<Rightarrow> bbr_state option" where
  "cycle_rounds 0 bbr = Some bbr"
| "cycle_rounds (Suc n) bbr =
     (case bbr_update_cycle_phase bbr of None \<Rightarrow> None | Some bbr' \<Rightarrow> cycle_rounds n bbr')"

definition bbr_check_drain :: "nat \<Rightarrow> bbr_state \<Rightarrow> bbr_state" where
  "bbr_check_drain rnd bbr =
     (let bbr1 = (if mode bbr = BBR_STARTUP \<and> bbr_full_bw_reached bbr
                  then bbr\<lparr> mode := BBR_DRAIN, pacing_gain := bbr_drain_gain,
                            cwnd_gain := bbr_high_gain \<rparr>
                  else bbr)
      in if mode bbr1 = BBR_DRAIN \<and> inflight bbr1 \<le> cwnd bbr1
         then bbr_reset_probe_bw_mode rnd bbr1 else bbr1)"

subsection \<open>The minimum round-trip time and PROBE\_RTT\<close>

text \<open>
  The filter loop of \<open>bbr_update_min_rtt\<close>, one step for each \<open>i\<close> below
  \<open>BBR_BW_RTTS - 1\<close>: the pair is the filter array and \<open>min_rtt_us\<close>.
\<close>

definition rtprop_step :: "nat \<Rightarrow> u32 list \<times> u32 \<Rightarrow> u32 list \<times> u32" where
  "rtprop_step i fm =
     (let f = (fst fm)[i := fst fm ! (i + 1)]
      in (f, if snd fm > f ! i then f ! i else snd fm))"

text \<open>
  \<open>bbr_update_min_rtt\<close>. \<open>t_stamp\<close>, \<open>t_enter\<close> and \<open>t_check\<close> are the values of
  the three calls of \<open>current_time()\<close>, in the order of the code: for
  \<open>min_rtt_stamp\<close>, for the deadline on entering \<open>PROBE_RTT\<close>, and in the test
  that leaves it.
\<close>

definition bbr_update_min_rtt :: "nat \<Rightarrow> int \<Rightarrow> int \<Rightarrow> int \<Rightarrow> bbr_state \<Rightarrow> u32 \<Rightarrow> bbr_state" where
  "bbr_update_min_rtt rnd t_stamp t_enter t_check bbr rtt_sample =
     (let last_min_rtt_us = min_rtt_us bbr;
          (f, m) = fold rtprop_step [0 ..< BBR_BW_RTTS - 1] (RTpropFilter bbr, rtt_sample);
          bbr1 = bbr\<lparr> min_rtt_us := m, RTpropFilter := f[BBR_BW_RTTS - 1 := rtt_sample],
                      min_rtt_stamp := t_stamp \<rparr>;
          filter_expired = (min_rtt_us bbr1 > last_min_rtt_us);
          bbr2 = (if bbr_probe_rtt_mode_ms > 0 \<and> filter_expired \<and> mode bbr1 \<noteq> BBR_PROBE_RTT
                  then (bbr_save_cwnd (bbr1\<lparr> mode := BBR_PROBE_RTT, pacing_gain := BBR_UNIT,
                                             cwnd_gain := BBR_UNIT \<rparr>))
                         \<lparr> probe_rtt_done_stamp := bbr_probe_rtt_mode_ms + t_enter \<rparr>
                  else bbr1)
      in if mode bbr2 = BBR_PROBE_RTT \<and> probe_rtt_done_stamp bbr2 \<ge> t_check
         then
           let bbr3 = bbr_reset_mode rnd bbr2
           in if restore_cwnd bbr3
              then bbr3\<lparr> cwnd := (if cwnd bbr3 > prior_cwnd bbr3 then cwnd bbr3 else prior_cwnd bbr3),
                         restore_cwnd := False \<rparr>
              else bbr3
         else bbr2)"

section \<open>Example inputs\<close>

subsection \<open>Router\<close>

text \<open>
  The checksum routine is a parameter of the model; the examples take the routine
  that is constantly 0 and store 0 in every checksum field.
\<close>

definition ck_ip0 :: "sr_ip_hdr \<Rightarrow> u16" where "ck_ip0 h = 0"
definition ck_icmp0 :: "sr_icmp_t3_hdr \<Rightarrow> u16" where "ck_icmp0 h = 0"

text \<open>
  A router with the interfaces 10.0.1.1 and 10.0.2.1 and the directly attached
  network 192.168.2.0/24 (no gateway) behind the second one.
\<close>

definition ex_eth0 :: sr_if where
  "ex_eth0 = \<lparr> if_name = ''eth0'', if_addr = [0xbb, 0, 0, 0, 0, 1], if_ip = 0x0101000A \<rparr>"

definition ex_eth1 :: sr_if where
  "ex_eth1 = \<lparr> if_name = ''eth1'', if_addr = [0xbb, 0, 0, 0, 0, 2], if_ip = 0x0102000A \<rparr>"

definition ex_direct_route :: sr_rt where
  "ex_direct_route =
     \<lparr> rt_dest = 0x0002A8C0, rt_gw = 0, rt_mask = 0x00FFFFFF, rt_interface = ''eth1'' \<rparr>"

definition ex_router :: sr_instance where
  "ex_router =
     \<lparr> if_list = [ex_eth0, ex_eth1], routing_table = [ex_direct_route], cache = (\<lambda>a. None) \<rparr>"

definition ex_router_hit :: sr_instance where
  "ex_router_hit =
     ex_router\<lparr> cache := (\<lambda>a. if a = 0 then Some \<lparr> arp_mac = [0xcc, 0, 0, 0, 0, 0xfe], arp_ip = 0 \<rparr>
                             else None) \<rparr>"

text \<open>Two default routes through different gateways.\<close>

definition ex_default_first :: sr_rt where
  "ex_default_first =
     \<lparr> rt_dest = 0, rt_gw = 0xFE01000A, rt_mask = 0, rt_interface = ''eth0'' \<rparr>"

definition ex_default_second :: sr_rt where
  "ex_default_second =
     \<lparr> rt_dest = 0, rt_gw = 0xFE02000A, rt_mask = 0, rt_interface = ''eth1'' \<rparr>"

definition ex_two_defaults :: sr_instance where
  "ex_two_defaults = ex_router\<lparr> routing_table := [ex_default_first, ex_default_second] \<rparr>"

text \<open>Frames from the host 10.0.1.2, 42 bytes long.\<close>

definition ex_ip_hdr :: "u8 \<Rightarrow> u32 \<Rightarrow> sr_ip_hdr" where
  "ex_ip_hdr p d =
     \<lparr> ip_hl = 5, ip_v = 4, ip_tos = 0, ip_len = htons 28, ip_id = 0, ip_off = 0,
       ip_ttl = 64, ip_p = p, ip_sum = 0, ip_src = 0x0201000A, ip_dst = d \<rparr>"

definition ex_eth_hdr :: sr_ethernet_hdr where
  "ex_eth_hdr =
     \<lparr> ether_dhost = [0xbb, 0, 0, 0, 0, 1], ether_shost = [0xaa, 0, 0, 0, 0, 1],
       ether_type = htons ethertype_ip \<rparr>"

definition ex_transit_packet :: frame where
  "ex_transit_packet =
     \<lparr> eth = ex_eth_hdr, ip = ex_ip_hdr 17 0x0502A8C0, payload = [0, 7, 0, 7, 0, 8, 0, 0] \<rparr>"


definition ex_icmp_error :: frame where
  "ex_icmp_error =
     \<lparr> eth = ex_eth_hdr, ip = ex_ip_hdr 1 0x0101000A, payload = [3, 1, 0, 0, 0, 0, 0, 0] \<rparr>"

subsection \<open>cTCP\<close>

definition ck0 :: "ctcp_segment \<Rightarrow> u16" where "ck0 s = 0"

definition ex_cfg :: ctcp_config where
  "ex_cfg = \<lparr> recv_window = 1440, send_window = 1440, timer = 40, rt_timeout = 200 \<rparr>"

text \<open>A segment with the given sequence number, acknowledgement number, flags and payload.\<close>

definition ex_seg :: "u32 \<Rightarrow> u32 \<Rightarrow> u32 \<Rightarrow> u8 list \<Rightarrow> ctcp_segment" where
  "ex_seg sq ak fl bs =
     \<lparr> seg_seqno = sq, seg_ackno = ak, seg_len = 20 + of_nat (length bs),
       seg_flags = fl, seg_window = 1440, seg_cksum = 0, seg_data = bs \<rparr>"

text \<open>A sink with room for three bytes in all.\<close>

definition ex_bufspace :: "u8 list list \<Rightarrow> nat" where
  "ex_bufspace outs = 3 - length (concat outs)"

text \<open>A connection that has sent ten bytes and then reached the end of its input.\<close>

definition ex_sent_fin :: ctcp_state where
  "ex_sent_fin =
     ctcp_read ck0 EndOfFile 7
       (ctcp_read ck0 (Data [1, 2, 3, 4, 5, 6, 7, 8, 9, 10]) 5 (ctcp_init ex_cfg))"


text \<open>
  A connection with a send window of 64800 bytes (45 segments of full size) that
  has read 1440 bytes 44 times and then 1439 bytes, nothing of it acknowledged:
  64799 bytes are in flight, one less than the window. \<open>ex_window_past\<close> is the
  connection after the next read of 1440 bytes.
\<close>

definition ex_data_seg :: "u32 \<Rightarrow> ctcp_segment" where
  "ex_data_seg sq =
     \<lparr> seg_seqno = sq, seg_ackno = 1, seg_len = 1460, seg_flags = ACK,
       seg_window = 1440, seg_cksum = 0, seg_data = replicate 1440 0 \<rparr>"

definition ex_flight45 :: "ctcp_segment list" where
  "ex_flight45 = map (\<lambda>i. ex_data_seg (1 + 1440 * of_nat i)) [0 ..< 44]
                   @ [ex_seg 63361 1 ACK (replicate 1439 0)]"

definition ex_window_open :: ctcp_state where
  "ex_window_open =
     (ctcp_init (ex_cfg\<lparr> send_window := 64800 \<rparr>))
       \<lparr> conn_sent := ex_flight45, seqno := 64800, unacked := ex_flight45 \<rparr>"

definition ex_window_past :: ctcp_state where
  "ex_window_past = ctcp_read ck0 (Data (replicate 1440 0)) 0 ex_window_open"

subsection \<open>Congestion controller\<close>

text \<open>
  The controller in \<open>STARTUP\<close> at time 1000, with the minimum round-trip time of
  40 and the filters \<open>bbr_init\<close> sets up.
\<close>

definition ex_bbr :: bbr_state where
  "ex_bbr =
     \<lparr> pacing_gain = bbr_high_gain, cwnd_gain = bbr_high_gain, mode = BBR_STARTUP,
       max_btlbw = 10, max_btlbw_stamp = 1000, min_rtt_us = 40, min_rtt_stamp = 1000,
       pacing_rate = 20, cwnd = 4, BtlBwFilter = replicate 10 0,
       RTpropFilter = replicate 10 0x7FFFFFFF, cycle_idx = 0, full_bw = 0,
       full_bw_cnt = 0, inflight = 0, probe_rtt_done_stamp = 0, restore_cwnd = False,
       prior_cwnd = 0, delivered_time = 1000, delivered = 0, next_send_time = 1000 \<rparr>"

text \<open>The controller on entry to \<open>PROBE_BW\<close> with \<open>rand()\<close> returning 0.\<close>

definition ex_probe_bw :: bbr_state where
  "ex_probe_bw = bbr_reset_probe_bw_mode 0 (ex_bbr\<lparr> full_bw_cnt := 3 \<rparr>)"

section \<open>Properties of the router\<close>

lemmas ex_router_defs = ck_ip0_def ck_icmp0_def ex_eth0_def ex_eth1_def ex_direct_route_def
  ex_router_def ex_ip_hdr_def ex_eth_hdr_def

lemmas sr_defs = sr_handle_ip_def sr_send_icmp_def sr_send_icmp_t3_def sr_get_interface_def
  sr_rt_for_dst_def ip_sum_ok_def sizeof_ethernet_hdr_def sizeof_ip_hdr_def sizeof_icmp_t3_hdr_def
  ip_protocol_icmp_def icmp_reply_ip_hdr_def icmp_reply_eth_hdr_def icmp_frame_len_def


lemma for_me_walk_iff: "for_me_walk ifs d \<longleftrightarrow> d \<in> if_ip ` set ifs"
  by (induction ifs) auto

subsection \<open>Route lookup\<close>

lemma rt_walk_sound:
  assumes "rt_inv dst best longest" and "rt_walk dst rs best longest = Some e"
  shows "rt_matches dst e \<and> (e \<in> set rs \<or> best = Some e)
       \<and> (\<forall>r\<in>set rs. rt_matches dst r \<longrightarrow> rt_mask r \<le> rt_mask e)
       \<and> (\<forall>b. best = Some b \<longrightarrow> rt_mask b \<le> rt_mask e)"
  using assms
proof (induction rs arbitrary: best longest)
  case Nil
  then show ?case by (auto simp: rt_inv_def)
next
  case (Cons r rs)
  show ?case
  proof (cases "rt_matches dst r \<and> (longest = 0 \<or> rt_mask r > longest)")
    case True
    with Cons.prems have w: "rt_walk dst rs (Some r) (rt_mask r) = Some e"
      by (simp add: rt_matches_def)
    have i: "rt_inv dst (Some r) (rt_mask r)"
      using True by (simp add: rt_inv_def)
    from Cons.IH [OF i w] True Cons.prems(1) show ?thesis
      by (auto simp: rt_inv_def split: option.splits)
  next
    case False
    with Cons.prems have w: "rt_walk dst rs best longest = Some e"
      by (auto simp add: rt_matches_def Let_def)
    from Cons.IH [OF Cons.prems(1) w] False Cons.prems(1) show ?thesis
      by (auto simp: rt_inv_def not_less split: option.splits)
  qed
qed


lemma rt_walk_complete:
  assumes "rt_inv dst best longest"
  shows "rt_walk dst rs best longest = None \<longleftrightarrow> best = None \<and> (\<forall>r\<in>set rs. \<not> rt_matches dst r)"
  using assms
proof (induction rs arbitrary: best longest)
  case Nil
  then show ?case by simp
next
  case (Cons r rs)
  show ?case
  proof (cases "rt_matches dst r \<and> (longest = 0 \<or> rt_mask r > longest)")
    case True
    have i: "rt_inv dst (Some r) (rt_mask r)"
      using True by (simp add: rt_inv_def)
    from Cons.IH [OF i] True show ?thesis
      by (simp add: rt_matches_def)
  next
    case False
    from Cons.IH [OF Cons.prems] False Cons.prems show ?thesis
      by (auto simp: rt_matches_def rt_inv_def Let_def split: option.splits)
  qed
qed

lemma rt_walk_first:
  assumes "rt_inv dst best longest" and "rt_walk dst rs best longest = Some e" and "rt_mask e \<noteq> 0"
  shows "(best = Some e \<and> (\<forall>r\<in>set rs. rt_matches dst r \<longrightarrow> rt_mask r \<le> rt_mask e))
       \<or> (\<exists>pre post. rs = pre @ e # post
             \<and> (\<forall>r\<in>set pre. rt_matches dst r \<longrightarrow> rt_mask r < rt_mask e)
             \<and> (\<forall>b. best = Some b \<longrightarrow> rt_mask b < rt_mask e))"
  using assms
proof (induction rs arbitrary: best longest)
  case Nil
  then show ?case by simp
next
  case (Cons r rs)
  have pos: "0 < rt_mask e"
    using Cons.prems(3) by (simp add: word_greater_zero_iff)
  show ?case
  proof (cases "rt_matches dst r \<and> (longest = 0 \<or> rt_mask r > longest)")
    case True
    with Cons.prems have w: "rt_walk dst rs (Some r) (rt_mask r) = Some e"
      by (simp add: rt_matches_def)
    have i: "rt_inv dst (Some r) (rt_mask r)"
      using True by (simp add: rt_inv_def)
    have b: "\<forall>b. best = Some b \<longrightarrow> rt_mask b \<le> rt_mask r"
      using True Cons.prems(1) by (auto simp: rt_inv_def)
    from Cons.IH [OF i w Cons.prems(3)]
    consider "r = e" "\<forall>x\<in>set rs. rt_matches dst x \<longrightarrow> rt_mask x \<le> rt_mask e"
      | pre post where "rs = pre @ e # post"
          "\<forall>x\<in>set pre. rt_matches dst x \<longrightarrow> rt_mask x < rt_mask e" "rt_mask r < rt_mask e"
      by auto
    then show ?thesis
    proof cases
      case 1
      have "\<forall>b. best = Some b \<longrightarrow> rt_mask b < rt_mask e"
        using True Cons.prems(1) pos 1(1) by (auto simp: rt_inv_def)
      with 1 have "r # rs = [] @ e # rs \<and> (\<forall>x\<in>set []. rt_matches dst x \<longrightarrow> rt_mask x < rt_mask e)
                   \<and> (\<forall>b. best = Some b \<longrightarrow> rt_mask b < rt_mask e)"
        by simp
      then show ?thesis by blast
    next
      case 2
      have "\<forall>b. best = Some b \<longrightarrow> rt_mask b < rt_mask e"
        using b 2(3) by auto
      with 2 have "r # rs = (r # pre) @ e # post
                   \<and> (\<forall>x\<in>set (r # pre). rt_matches dst x \<longrightarrow> rt_mask x < rt_mask e)
                   \<and> (\<forall>b. best = Some b \<longrightarrow> rt_mask b < rt_mask e)"
        by simp
      then show ?thesis by blast
    qed
  next
    case False
    with Cons.prems have w: "rt_walk dst rs best longest = Some e"
      by (auto simp add: rt_matches_def Let_def)
    have keep: "rt_matches dst r \<longrightarrow> (\<exists>b. best = Some b \<and> rt_mask r \<le> rt_mask b)"
      using False Cons.prems(1) by (auto simp: rt_inv_def not_less split: option.splits)
    from Cons.IH [OF Cons.prems(1) w Cons.prems(3)]
    consider "best = Some e" "\<forall>x\<in>set rs. rt_matches dst x \<longrightarrow> rt_mask x \<le> rt_mask e"
      | pre post where "rs = pre @ e # post"
          "\<forall>x\<in>set pre. rt_matches dst x \<longrightarrow> rt_mask x < rt_mask e"
          "\<forall>b. best = Some b \<longrightarrow> rt_mask b < rt_mask e"
      by auto
    then show ?thesis
    proof cases
      case 1
      with keep show ?thesis by auto
    next
      case 2
      with keep have "r # rs = (r # pre) @ e # post
                   \<and> (\<forall>x\<in>set (r # pre). rt_matches dst x \<longrightarrow> rt_mask x < rt_mask e)
                   \<and> (\<forall>b. best = Some b \<longrightarrow> rt_mask b < rt_mask e)"
        by auto
      then show ?thesis by blast
    qed
  qed
qed

lemma sr_rt_for_dst_longest:
  assumes "sr_rt_for_dst sr dst = Some e"
  shows "e \<in> set (routing_table sr) \<and> rt_matches dst e
       \<and> (\<forall>r\<in>set (routing_table sr). rt_matches dst r \<longrightarrow> rt_mask r \<le> rt_mask e)"
proof -
  have "rt_inv dst None 0"
    by (simp add: rt_inv_def)
  from rt_walk_sound [OF this assms [unfolded sr_rt_for_dst_def]] show ?thesis
    by simp
qed

lemma sr_rt_for_dst_none:
  "sr_rt_for_dst sr dst = None \<longleftrightarrow> (\<forall>r\<in>set (routing_table sr). \<not> rt_matches dst r)"
proof -
  have "rt_inv dst None 0"
    by (simp add: rt_inv_def)
  from rt_walk_complete [OF this] show ?thesis
    by (simp add: sr_rt_for_dst_def)
qed

lemma sr_rt_for_dst_first:
  assumes "sr_rt_for_dst sr dst = Some e" and "rt_mask e \<noteq> 0"
  shows "\<exists>pre post. routing_table sr = pre @ e # post
           \<and> (\<forall>r\<in>set pre. rt_matches dst r \<longrightarrow> rt_mask r < rt_mask e)"
proof -
  have "rt_inv dst None 0"
    by (simp add: rt_inv_def)
  from rt_walk_first [OF this assms(1) [unfolded sr_rt_for_dst_def] assms(2)] show ?thesis
    by auto
qed

text \<open>
  C2. The lookup returns a matching entry of largest mask, none when nothing
  matches, and the first of several entries that tie with a nonzero mask (the three
  lemmas above). The tie at mask 0 goes the other way: \<open>longest_mask == 0\<close> also
  stands for "nothing found yet", so of two default routes, both matching and of
  equal mask, the lookup returns the one inserted last.
\<close>

theorem sr_rt_for_dst_default_tie:
  "routing_table ex_two_defaults = [ex_default_first, ex_default_second]
   \<and> rt_matches 0x08080808 ex_default_first
   \<and> rt_matches 0x08080808 ex_default_second
   \<and> rt_mask ex_default_first = rt_mask ex_default_second
   \<and> ex_default_first \<noteq> ex_default_second
   \<and> sr_rt_for_dst ex_two_defaults 0x08080808 = Some ex_default_second"
  by (simp add: ex_router_defs ex_default_first_def ex_default_second_def ex_two_defaults_def
      sr_rt_for_dst_def rt_matches_def)

subsection \<open>Forwarding\<close>

text \<open>
  The claim that a route without gateway makes the router resolve the destination
  of the packet fails: for a packet to 192.168.2.5 on the directly attached network
  the router looks up, and queues the packet under, the address 0.
\<close>

theorem sr_handle_ip_gateway_zero_counterexample:
  "rt_gw ex_direct_route = 0 \<and> ip_dst (ip ex_transit_packet) = 0x0502A8C0
   \<and> sr_rt_for_dst ex_router (ip_dst (ip ex_transit_packet)) = Some ex_direct_route
   \<and> sr_handle_ip ck_ip0 ck_icmp0 ex_router ex_transit_packet 42 ''eth0''
       = Some [ArpLookup 0,
               ArpQueueReq 0 (ex_transit_packet\<lparr> ip := (ip ex_transit_packet)\<lparr> ip_ttl := 63 \<rparr> \<rparr>)
                 42 ''eth1'']"
  by (simp add: ex_router_defs ex_transit_packet_def sr_defs)

text \<open>
  C3 (amended). For a transit packet that passes the length and checksum tests,
  whose TTL does not run out and for which a route is found, the address looked up
  in the ARP cache is the gateway field of the route, whatever its value: on a miss
  the packet is queued under that address, on a hit it is sent.
\<close>

theorem sr_handle_ip_next_hop_is_gateway:
  assumes len_ok: "\<not> (ucast len :: u64) - sizeof_ethernet_hdr < sizeof_ip_hdr"
      and sum_ok: "ip_sum_ok ck_ip (ip packet)"
      and transit: "ip_dst (ip packet) \<notin> if_ip ` set (if_list sr)"
      and ttl: "ip_ttl (ip packet) \<noteq> 1"
      and route: "sr_rt_for_dst sr (ip_dst (ip packet)) = Some out_rt"
  shows "(cache sr (rt_gw out_rt) = None \<longrightarrow>
            (\<exists>p. sr_handle_ip ck_ip ck_icmp sr packet len interface
                    = Some [ArpLookup (rt_gw out_rt),
                            ArpQueueReq (rt_gw out_rt) p len (rt_interface out_rt)]))
       \<and> (\<forall>entry if_entry. cache sr (rt_gw out_rt) = Some entry
              \<and> sr_get_interface sr (rt_interface out_rt) = Some if_entry \<longrightarrow>
            (\<exists>p. sr_handle_ip ck_ip ck_icmp sr packet len interface
                    = Some [ArpLookup (rt_gw out_rt), SendPacket p len (rt_interface out_rt)]))"
proof -
  have nfm: "\<not> for_me_walk (if_list sr) (ip_dst (ip packet))"
    using transit by (simp add: for_me_walk_iff)
  have ttl': "ip_ttl (ip packet) - 1 \<noteq> 0"
    using ttl by simp
  show ?thesis
    using len_ok sum_ok nfm ttl' route
    by (simp add: sr_handle_ip_def Let_def)
qed

text \<open>The packet to 192.168.2.5, with the cache empty and with the cache holding address 0.\<close>

theorem sr_handle_ip_next_hop_is_gateway_witness:
  "(\<exists>p. sr_handle_ip ck_ip0 ck_icmp0 ex_router ex_transit_packet 42 ''eth0''
           = Some [ArpLookup 0, ArpQueueReq 0 p 42 ''eth1''])
   \<and> (\<exists>p. sr_handle_ip ck_ip0 ck_icmp0 ex_router_hit ex_transit_packet 42 ''eth0''
           = Some [ArpLookup 0, SendPacket p 42 ''eth1''])"
proof -
  have r: "sr_rt_for_dst ex_router (ip_dst (ip ex_transit_packet)) = Some ex_direct_route"
    by (simp add: ex_router_defs ex_router_hit_def ex_transit_packet_def sr_defs)
  have r': "sr_rt_for_dst ex_router_hit (ip_dst (ip ex_transit_packet)) = Some ex_direct_route"
    by (simp add: ex_router_defs ex_router_hit_def ex_transit_packet_def sr_defs)
  have a: "\<not> (ucast (42 :: u32) :: u64) - sizeof_ethernet_hdr < sizeof_ip_hdr"
    by (simp add: sr_defs)
  have b: "ip_sum_ok ck_ip0 (ip ex_transit_packet)"
    by (simp add: ex_router_defs ex_router_hit_def ex_transit_packet_def sr_defs)
  have c: "ip_dst (ip ex_transit_packet) \<notin> if_ip ` set (if_list ex_router)"
    by (simp add: ex_router_defs ex_router_hit_def ex_transit_packet_def)
  have c': "ip_dst (ip ex_transit_packet) \<notin> if_ip ` set (if_list ex_router_hit)"
    by (simp add: ex_router_defs ex_router_hit_def ex_transit_packet_def)
  have d: "ip_ttl (ip ex_transit_packet) \<noteq> 1"
    by (simp add: ex_router_defs ex_router_hit_def ex_transit_packet_def)
  have m: "cache ex_router (rt_gw ex_direct_route) = None"
    by (simp add: ex_router_defs ex_router_hit_def ex_transit_packet_def)
  have h: "cache ex_router_hit (rt_gw ex_direct_route)
             = Some \<lparr> arp_mac = [0xcc, 0, 0, 0, 0, 0xfe], arp_ip = 0 \<rparr>
           \<and> sr_get_interface ex_router_hit (rt_interface ex_direct_route) = Some ex_eth1"
    by (simp add: ex_router_defs ex_router_hit_def ex_transit_packet_def sr_defs)
  have g: "rt_gw ex_direct_route = 0" "rt_interface ex_direct_route = ''eth1''"
    by (simp_all add: ex_router_defs ex_router_hit_def ex_transit_packet_def)
  from sr_handle_ip_next_hop_is_gateway [OF a b c d r, of ck_icmp0 "''eth0''"] m
       sr_handle_ip_next_hop_is_gateway [OF a b c' d r', of ck_icmp0 "''eth0''"] h
  show ?thesis unfolding g by blast
qed

subsection \<open>Packets for the router itself\<close>



text \<open>
  C10. The reply does not depend on what kind of ICMP message came in: whatever
  the type and code bytes of the inbound message are, an ICMP packet for the router
  that passes the length and checksum tests is answered with a message of type 0
  and code 0, sent to the source of the inbound packet.
\<close>

theorem sr_handle_ip_icmp_any_type:
  assumes len_ok: "\<not> (ucast len :: u64) - sizeof_ethernet_hdr < sizeof_ip_hdr"
      and sum_ok: "ip_sum_ok ck_ip (ip packet)"
      and for_me: "ip_dst (ip packet) \<in> if_ip ` set (if_list sr)"
      and icmp: "ip_p (ip packet) = ip_protocol_icmp"
      and iface: "sr_get_interface sr interface = Some rec_iface"
      and msg: "payload packet = in_type # in_code # bs" "6 \<le> length bs"
  shows "\<exists>reply. sr_handle_ip ck_ip ck_icmp sr packet len interface
                    = Some [SendIcmpPacket reply icmp_frame_len interface]
           \<and> icmp_type (o_icmp reply) = 0 \<and> icmp_code (o_icmp reply) = 0
           \<and> ip_p (o_ip reply) = ip_protocol_icmp
           \<and> ip_dst (o_ip reply) = ip_src (ip packet)"
proof -
  have fm: "for_me_walk (if_list sr) (ip_dst (ip packet))"
    using for_me by (simp add: for_me_walk_iff)
  have run: "sr_handle_ip ck_ip ck_icmp sr packet len interface
             = sr_send_icmp ck_ip ck_icmp sr packet 0 0 interface"
    using len_ok sum_ok fm icmp by (simp add: sr_handle_ip_def)
  show ?thesis
    unfolding run using iface msg
    by (simp add: sr_send_icmp_def Let_def icmp_reply_ip_hdr_def)
qed

text \<open>A Destination Unreachable message (type 3, code 1) addressed to the router.\<close>

theorem sr_handle_ip_icmp_any_type_witness:
  "payload ex_icmp_error = 3 # 1 # [0, 0, 0, 0, 0, 0]
   \<and> (\<exists>reply. sr_handle_ip ck_ip0 ck_icmp0 ex_router ex_icmp_error 42 ''eth0''
                    = Some [SendIcmpPacket reply icmp_frame_len ''eth0'']
           \<and> icmp_type (o_icmp reply) = 0 \<and> icmp_code (o_icmp reply) = 0)"
proof -
  have a: "\<not> (ucast (42 :: u32) :: u64) - sizeof_ethernet_hdr < sizeof_ip_hdr"
    by (simp add: sr_defs)
  have b: "ip_sum_ok ck_ip0 (ip ex_icmp_error)"
    by (simp add: ex_router_defs ex_icmp_error_def sr_defs)
  have c: "ip_dst (ip ex_icmp_error) \<in> if_ip ` set (if_list ex_router)"
    by (simp add: ex_router_defs ex_icmp_error_def)
  have d: "ip_p (ip ex_icmp_error) = ip_protocol_icmp"
    by (simp add: ex_router_defs ex_icmp_error_def sr_defs)
  have e: "sr_get_interface ex_router ''eth0'' = Some ex_eth0"
    by (simp add: ex_router_defs ex_icmp_error_def sr_defs)
  have f: "payload ex_icmp_error = 3 # 1 # [0, 0, 0, 0, 0, 0]"
    by (simp add: ex_router_defs ex_icmp_error_def)
  have g: "6 \<le> length [0, 0, 0, 0, 0, 0 :: u8]"
    by simp
  from sr_handle_ip_icmp_any_type [OF a b c d e f g, of ck_icmp0] f
  show ?thesis by blast
qed

section \<open>Properties of cTCP\<close>

lemmas ctcp_defs = ctcp_receive_def ctcp_output_def corrupted_def carries_data_or_fin_def
  is_duplicate_def deal_with_ack_def deal_with_fin_def insert_unoutput_def send_ack_segment_def
  ack_segment_def seg_data_len_def sizeof_ctcp_segment_def FIN_def ACK_def ctcp_init_def
  ctcp_read_def on_air_def send_fin_segment_def send_data_segment_def Let_def

lemmas ex_ctcp_defs = ck0_def ex_cfg_def ex_seg_def ex_bufspace_def

subsection \<open>Output\<close>

lemma ctcp_output_fields:
  "ctcp_output ck bufspace st = st' \<Longrightarrow>
   unacked st' = unacked st \<and> send_fin st' = send_fin st \<and> receive_fin st' = receive_fin st
   \<and> receive_ack_fin st' = receive_ack_fin st \<and> seqno st' = seqno st \<and> cfg st' = cfg st"
  by (auto simp: ctcp_output_def send_ack_segment_def Let_def split: prod.splits if_splits)

text \<open>
  The receive pipeline with room in the sink. First the loop of \<open>ctcp_output\<close>: a
  run of segments at the head of the queue that continue the acknowledgement number
  one after the other is written in order, and the loop stops in front of a segment
  that does not continue it.
\<close>

lemma ackno_after_append: "ackno_after a (xs @ ys) = ackno_after (ackno_after a xs) ys"
  by (induction xs arbitrary: a) auto

lemma contiguous_append:
  "contiguous a (xs @ ys) \<longleftrightarrow> contiguous a xs \<and> contiguous (ackno_after a xs) ys"
  by (induction xs arbitrary: a) auto

lemma writes_of_append: "writes_of (xs @ ys) = writes_of xs @ writes_of ys"
  by (induction xs) auto

lemma dup_walk_iff: "dup_walk us q \<longleftrightarrow> (\<exists>u\<in>set us. seg_seqno u = q)"
  by (induction us) auto

lemma insert_walk_above:
  "\<forall>u\<in>set us. seg_seqno s < seg_seqno u \<Longrightarrow> insert_walk s us = us"
proof (induction s us rule: insert_walk.induct)
  case (1 segment c n rest)
  then show ?case by (auto simp: not_less dest: less_asym)
qed simp_all

lemma insert_walk_between:
  assumes "A \<noteq> []" and "B \<noteq> []"
      and "\<forall>u\<in>set A. seg_seqno u < seg_seqno s"
      and "\<forall>u\<in>set B. seg_seqno s < seg_seqno u"
  shows "insert_walk s (A @ B) = A @ s # B"
  using assms
proof (induction A)
  case Nil
  then show ?case by simp
next
  case (Cons c A)
  show ?case
  proof (cases A)
    case Nil
    from Cons.prems(2) obtain n rest where B: "B = n # rest"
      by (cases B) auto
    have "insert_walk s (n # rest) = n # rest"
      using Cons.prems(4) B by (intro insert_walk_above) simp
    with Nil B Cons.prems show ?thesis by simp
  next
    case (Cons c' A')
    have "\<not> seg_seqno s < seg_seqno c'"
      using Cons.prems(3) Cons by (auto dest: less_asym)
    moreover have "insert_walk s (A @ B) = A @ s # B"
      using Cons.IH Cons.prems Cons by simp
    ultimately show ?thesis using Cons by simp
  qed
qed

lemma output_walk_run:
  assumes "contiguous b run"
      and "\<forall>s\<in>set run. \<forall>outs'. unat (seg_data_len s) \<le> bufspace outs'"
      and "rest = [] \<or> seg_seqno (hd rest) \<noteq> ackno_after b run"
  shows "output_walk bufspace (run @ rest) b outs h
           = (rest, ackno_after b run, outs @ writes_of run, h \<or> run \<noteq> [], False)"
  using assms
proof (induction run arbitrary: b outs h)
  case Nil
  then show ?case by (cases rest) auto
next
  case (Cons s run)
  have room: "\<not> bufspace outs < unat (seg_data_len s)"
    using Cons.prems(2) by (simp add: not_less)
  have rest': "\<forall>s'\<in>set run. \<forall>outs'. unat (seg_data_len s') \<le> bufspace outs'"
    using Cons.prems(2) by simp
  from Cons.prems(1) have hd: "seg_seqno s = b" and tl: "contiguous (ackno_after b [s]) run"
    by simp_all
  show ?case
  proof (cases "seg_flags s AND FIN \<noteq> 0")
    case True
    with tl have tl': "contiguous (b + ucast (seg_data_len s) + 1) run" by simp
    have stop: "rest = [] \<or> seg_seqno (hd rest) \<noteq> ackno_after (b + ucast (seg_data_len s) + 1) run"
      using Cons.prems(3) True by simp
    show ?thesis
      using True hd room Cons.IH [OF tl' rest' stop] by (simp add: Let_def)
  next
    case False
    with tl have tl': "contiguous (b + ucast (seg_data_len s)) run" by simp
    have stop: "rest = [] \<or> seg_seqno (hd rest) \<noteq> ackno_after (b + ucast (seg_data_len s)) run"
      using Cons.prems(3) False by simp
    show ?thesis
      using False hd room Cons.IH [OF tl' rest' stop] by (simp add: Let_def)
  qed
qed


lemma filter_takeWhile_dropWhile:
  "filter P xs = takeWhile P xs @ filter P (dropWhile P xs)"
  by (induction xs) auto

lemma sorted_wrt_hd_le:
  assumes "sorted_wrt seq_lt xs" and "x \<in> set xs"
  shows "\<not> seg_seqno x < seg_seqno (hd xs)"
  using assms by (cases xs) (auto dest: less_asym)

lemma contiguous_hd: "contiguous b xs \<Longrightarrow> xs \<noteq> [] \<Longrightarrow> seg_seqno (hd xs) = b"
  by (cases xs) auto

text \<open>
  Insertion into a queue that holds, in order, those segments of a sorted stream
  received so far: the new segment goes to its place.
\<close>

lemma insert_unoutput_filter:
  assumes sorted: "sorted_wrt seq_lt todo"
      and s: "s \<in> set todo" "s \<notin> R" "carries_data_or_fin s"
      and q: "unoutput st = filter (\<lambda>u. u \<in> R) todo"
  shows "unoutput (insert_unoutput st s) = filter (\<lambda>u. u \<in> insert s R) todo"
proof -
  from s(1) obtain pre post where todo: "todo = pre @ s # post"
    by (auto dest: split_list)
  from sorted todo have lo: "\<forall>u\<in>set pre. seg_seqno u < seg_seqno s"
    and hi: "\<forall>u\<in>set post. seg_seqno s < seg_seqno u"
    by (auto simp: sorted_wrt_append)
  let ?A = "filter (\<lambda>u. u \<in> R) pre" and ?B = "filter (\<lambda>u. u \<in> R) post"
  have L: "unoutput st = ?A @ ?B"
    using q todo s(2) by simp
  have "s \<notin> set pre" "s \<notin> set post"
    using lo hi by auto
  then have pre': "filter (\<lambda>u. u \<in> insert s R) pre = ?A"
    and post': "filter (\<lambda>u. u \<in> insert s R) post = ?B"
    by (auto intro: filter_cong)
  have goal: "filter (\<lambda>u. u \<in> insert s R) todo = ?A @ s # ?B"
    using todo pre' post' by simp
  have loA: "\<forall>u\<in>set ?A. seg_seqno u < seg_seqno s" and hiB: "\<forall>u\<in>set ?B. seg_seqno s < seg_seqno u"
    using lo hi by auto
  show ?thesis
  proof (cases "?A = []")
    case True
    show ?thesis
    proof (cases "?B = []")
      case True
      with \<open>?A = []\<close> L goal s(3) show ?thesis
        by (simp add: insert_unoutput_def)
    next
      case False
      then have "seg_seqno s < seg_seqno (hd ?B)"
        using hiB by (cases ?B) auto
      with \<open>?A = []\<close> False L goal s(3) show ?thesis
        by (simp add: insert_unoutput_def Let_def)
    qed
  next
    case False
    then have h: "hd (?A @ ?B) = hd ?A" "\<not> seg_seqno s < seg_seqno (hd ?A)"
      using loA by (cases ?A; auto dest: less_asym)+
    show ?thesis
    proof (cases "?B = []")
      case True
      have "seg_seqno (last ?A) < seg_seqno s"
        using loA False last_in_set by blast
      with True False h L goal s(3) show ?thesis
        by (simp add: insert_unoutput_def Let_def)
    next
      case Bne: False
      have "\<not> seg_seqno (last (?A @ ?B)) < seg_seqno s"
        using hiB Bne last_in_set [of ?B] by (auto dest: less_asym)
      moreover have "insert_walk s (?A @ ?B) = ?A @ s # ?B"
        using False Bne loA hiB by (rule insert_walk_between)
      ultimately show ?thesis
        using False Bne h L goal s(3) by (simp add: insert_unoutput_def Let_def)
    qed
  qed
qed


lemma deal_with_ack_keeps:
  "unoutput (deal_with_ack st s) = unoutput st \<and> ackno (deal_with_ack st s) = ackno st
   \<and> conn_outputs (deal_with_ack st s) = conn_outputs st"
  by (simp add: deal_with_ack_def Let_def)

lemma deal_with_fin_keeps:
  "unoutput (deal_with_fin st s) = unoutput st \<and> ackno (deal_with_fin st s) = ackno st
   \<and> conn_outputs (deal_with_fin st s) = conn_outputs st"
  by (simp add: deal_with_fin_def)

lemma insert_unoutput_keeps:
  "ackno (insert_unoutput st s) = ackno st \<and> conn_outputs (insert_unoutput st s) = conn_outputs st"
  by (simp add: insert_unoutput_def Let_def)

lemma ctcp_output_run:
  assumes "unoutput st = run @ rest" and "contiguous (ackno st) run"
      and "\<forall>s\<in>set run. \<forall>outs'. unat (seg_data_len s) \<le> bufspace outs'"
      and "rest = [] \<or> seg_seqno (hd rest) \<noteq> ackno_after (ackno st) run"
  shows "unoutput (ctcp_output ck bufspace st) = rest
       \<and> ackno (ctcp_output ck bufspace st) = ackno_after (ackno st) run
       \<and> conn_outputs (ctcp_output ck bufspace st) = conn_outputs st @ writes_of run"
  using output_walk_run [OF assms(2) assms(3) assms(4), where outs = "conn_outputs st" and h = False]
  by (simp add: ctcp_output_def assms(1) send_ack_segment_def Let_def)

text \<open>One acknowledgement with the new number if the run is not empty, none otherwise.\<close>

lemma ctcp_output_run_ack:
  assumes "unoutput st = run @ rest" and "contiguous (ackno st) run"
      and "\<forall>s\<in>set run. \<forall>outs'. unat (seg_data_len s) \<le> bufspace outs'"
      and "rest = [] \<or> seg_seqno (hd rest) \<noteq> ackno_after (ackno st) run"
  shows "(run = [] \<longrightarrow> conn_sent (ctcp_output ck bufspace st) = conn_sent st)
       \<and> (run \<noteq> [] \<longrightarrow>
            (\<exists>a. conn_sent (ctcp_output ck bufspace st) = conn_sent st @ [a]
                 \<and> seg_ackno a = ackno_after (ackno st) run \<and> seg_flags a = ACK
                 \<and> seg_len a = 20 \<and> seg_data a = []))"
proof -
  have w: "output_walk bufspace (unoutput st) (ackno st) (conn_outputs st) False
             = (rest, ackno_after (ackno st) run, conn_outputs st @ writes_of run, run \<noteq> [], False)"
    using output_walk_run [OF assms(2) assms(3) assms(4), where outs = "conn_outputs st" and h = False]
    by (simp add: assms(1))
  show ?thesis
    by (cases "run = []")
       (simp_all add: ctcp_output_def w send_ack_segment_def ack_segment_def Let_def
          sizeof_ctcp_segment_def)
qed

text \<open>
  One call of \<open>ctcp_receive\<close> for a segment of the stream that has not arrived
  before keeps the state described by \<open>delivered_upto\<close>.
\<close>

lemma receive_step:
  assumes sorted: "sorted_wrt seq_lt segs"
      and chain: "contiguous a segs"
      and good: "\<forall>s\<in>set segs. \<not> corrupted ck s \<and> carries_data_or_fin s"
      and room: "\<forall>s\<in>set segs. \<forall>outs'. unat (seg_data_len s) \<le> bufspace outs'"
      and inv: "delivered_upto a outs0 segs R st"
      and new: "s \<in> set segs" "s \<notin> R"
  shows "delivered_upto a outs0 segs (insert s R) (ctcp_receive ck bufspace st s)"
proof -
  from inv obtain front todo where
    split: "segs = front @ todo" and ack: "ackno st = ackno_after a front" and dn: "set front \<subseteq> R"
    and q: "unoutput st = filter (\<lambda>u. u \<in> R) todo" and nxt: "todo \<noteq> [] \<longrightarrow> hd todo \<notin> R"
    and outs: "conn_outputs st = outs0 @ writes_of front"
    unfolding delivered_upto_def by blast
  let ?R = "insert s R"
  have s_todo: "s \<in> set todo"
    using new dn split by auto
  have sorted_todo: "sorted_wrt seq_lt todo"
    using sorted split by (simp add: sorted_wrt_append)
  have chain_todo: "contiguous (ackno st) todo"
    using chain split ack by (simp add: contiguous_append)
  have hd_todo: "seg_seqno (hd todo) = ackno st"
    using chain_todo s_todo by (intro contiguous_hd) auto
  have fresh: "\<not> seg_seqno s < ackno st"
    using sorted_wrt_hd_le [OF sorted_todo s_todo] hd_todo by simp
  have distinct_seq: "\<forall>u\<in>set todo. u \<noteq> s \<longrightarrow> seg_seqno u \<noteq> seg_seqno s"
  proof -
    from s_todo obtain pre post where "todo = pre @ s # post"
      by (auto dest: split_list)
    with sorted_todo show ?thesis
      by (auto simp: sorted_wrt_append)
  qed
  have nodup: "\<not> is_duplicate st s"
  proof -
    have "\<forall>u\<in>set (unoutput st). seg_seqno u \<noteq> seg_seqno s"
      using q distinct_seq new(2) by auto
    then have "\<forall>u\<in>set (take (length (unoutput st) mod 65536) (unoutput st)). seg_seqno u \<noteq> seg_seqno s"
      by (auto dest: in_set_takeD)
    then show ?thesis
      by (simp add: is_duplicate_def dup_walk_iff)
  qed
  let ?st2 = "deal_with_fin (deal_with_ack st s) s"
  let ?st3 = "insert_unoutput ?st2 s"
  have run: "ctcp_receive ck bufspace st s = ctcp_output ck bufspace ?st3"
    using good new(1) fresh nodup by (simp add: ctcp_receive_def Let_def)
  have q2: "unoutput ?st2 = filter (\<lambda>u. u \<in> R) todo"
    using q by (simp add: deal_with_ack_keeps deal_with_fin_keeps)
  have q3: "unoutput ?st3 = filter (\<lambda>u. u \<in> ?R) todo"
    using good new(1) by (intro insert_unoutput_filter [OF sorted_todo s_todo new(2) _ q2]) simp
  have a3: "ackno ?st3 = ackno st" and o3: "conn_outputs ?st3 = conn_outputs st"
    by (simp_all add: insert_unoutput_keeps deal_with_ack_keeps deal_with_fin_keeps)
  let ?run = "takeWhile (\<lambda>u. u \<in> ?R) todo" and ?todo' = "dropWhile (\<lambda>u. u \<in> ?R) todo"
  let ?rest = "filter (\<lambda>u. u \<in> ?R) ?todo'"
  have todo_split: "todo = ?run @ ?todo'"
    by simp
  have q3': "unoutput ?st3 = ?run @ ?rest"
    using q3 filter_takeWhile_dropWhile [of "\<lambda>u. u \<in> ?R" todo] by simp
  have chain_run: "contiguous (ackno ?st3) ?run"
    and chain_rest: "contiguous (ackno_after (ackno st) ?run) ?todo'"
    using chain_todo contiguous_append [of "ackno st" ?run ?todo'] a3 by simp_all
  have room_run: "\<forall>u\<in>set ?run. \<forall>outs'. unat (seg_data_len u) \<le> bufspace outs'"
  proof
    fix u assume "u \<in> set ?run"
    then have "u \<in> set todo" by (rule set_takeWhileD [THEN conjunct1])
    then show "\<forall>outs'. unat (seg_data_len u) \<le> bufspace outs'"
      using room split by simp
  qed
  have stop: "?rest = [] \<or> seg_seqno (hd ?rest) \<noteq> ackno_after (ackno ?st3) ?run"
  proof (cases "?rest = []")
    case True
    then show ?thesis by simp
  next
    case False
    have ne: "?todo' \<noteq> []"
    proof
      assume "?todo' = []"
      then have "?rest = []" by (simp only: filter.simps)
      with False show False ..
    qed
    have out: "hd ?todo' \<notin> ?R"
      using ne hd_dropWhile [of "\<lambda>u. u \<in> ?R" todo] by simp
    have "hd ?rest \<in> set ?rest"
      using False by (rule hd_in_set)
    then have m: "hd ?rest \<in> set ?todo'" "hd ?rest \<in> ?R"
      unfolding set_filter by blast+
    with out ne have "hd ?rest \<in> set (tl ?todo')"
      by (cases ?todo') auto
    moreover have "sorted_wrt seq_lt ?todo'"
      using sorted_todo todo_split sorted_wrt_append [of seq_lt ?run ?todo'] by simp
    ultimately have "seg_seqno (hd ?todo') < seg_seqno (hd ?rest)"
      using ne by (cases ?todo') auto
    moreover have "seg_seqno (hd ?todo') = ackno_after (ackno st) ?run"
      using chain_rest ne by (rule contiguous_hd)
    ultimately have "seg_seqno (hd ?rest) \<noteq> ackno_after (ackno st) ?run"
      by (metis less_irrefl)
    then show ?thesis
      unfolding a3 ..
  qed
  from ctcp_output_run [OF q3' chain_run room_run stop, of ck]
  have res: "unoutput (ctcp_receive ck bufspace st s) = ?rest"
            "ackno (ctcp_receive ck bufspace st s) = ackno_after (ackno st) ?run"
            "conn_outputs (ctcp_receive ck bufspace st s) = conn_outputs st @ writes_of ?run"
    unfolding run a3 o3 by simp_all
  have "segs = (front @ ?run) @ ?todo'"
    using split by simp
  moreover have "ackno (ctcp_receive ck bufspace st s) = ackno_after a (front @ ?run)"
    using res(2) ack by (simp add: ackno_after_append)
  moreover have "set (front @ ?run) \<subseteq> ?R"
    using dn by (auto dest: set_takeWhileD)
  moreover have "?todo' \<noteq> [] \<longrightarrow> hd ?todo' \<notin> ?R"
    using hd_dropWhile [of "\<lambda>u. u \<in> ?R" todo] by auto
  moreover have "conn_outputs (ctcp_receive ck bufspace st s) = outs0 @ writes_of (front @ ?run)"
    using res(3) outs by (simp add: writes_of_append)
  ultimately show ?thesis
    unfolding delivered_upto_def using res(1) by blast
qed

lemma receive_all_steps:
  assumes sorted: "sorted_wrt seq_lt segs"
      and chain: "contiguous a segs"
      and good: "\<forall>s\<in>set segs. \<not> corrupted ck s \<and> carries_data_or_fin s"
      and room: "\<forall>s\<in>set segs. \<forall>outs'. unat (seg_data_len s) \<le> bufspace outs'"
      and inv: "delivered_upto a outs0 segs R st"
      and new: "distinct ps" "set ps \<subseteq> set segs" "set ps \<inter> R = {}"
  shows "delivered_upto a outs0 segs (R \<union> set ps) (receive_all ck bufspace st ps)"
  using inv new
proof (induction ps arbitrary: R st)
  case Nil
  then show ?case by simp
next
  case (Cons p ps)
  have step: "delivered_upto a outs0 segs (insert p R) (ctcp_receive ck bufspace st p)"
    using Cons.prems by (intro receive_step [OF sorted chain good room]) auto
  have "delivered_upto a outs0 segs (insert p R \<union> set ps)
          (receive_all ck bufspace (ctcp_receive ck bufspace st p) ps)"
    using Cons.prems by (intro Cons.IH [OF step]) auto
  then show ?case by simp
qed

text \<open>
  The segments of a stream, each with payload or FIN and none corrupted, arrive in
  any order at a receiver with an empty queue whose acknowledgement number is the
  sequence number of the first one. If the sink always has room, the payloads are
  written to the sink once each in the order of the stream (with the empty write
  behind a FIN), and the acknowledgement number ends behind the last segment.
\<close>

lemma receive_all_in_order:
  assumes sorted: "sorted_wrt seq_lt segs"
      and chain: "contiguous (ackno st) segs"
      and good: "\<forall>s\<in>set segs. \<not> corrupted ck s \<and> carries_data_or_fin s"
      and room: "\<forall>s\<in>set segs. \<forall>outs'. unat (seg_data_len s) \<le> bufspace outs'"
      and empty: "unoutput st = []"
      and perm: "distinct ps" "set ps = set segs"
  shows "conn_outputs (receive_all ck bufspace st ps) = conn_outputs st @ writes_of segs
       \<and> ackno (receive_all ck bufspace st ps) = ackno_after (ackno st) segs
       \<and> unoutput (receive_all ck bufspace st ps) = []"
proof -
  have start: "delivered_upto (ackno st) (conn_outputs st) segs {} st"
    unfolding delivered_upto_def using empty
    by (intro exI [of _ "[]"] exI [of _ segs]) simp
  from receive_all_steps [OF sorted chain good room start perm(1)] perm(2)
  have "delivered_upto (ackno st) (conn_outputs st) segs (set segs) (receive_all ck bufspace st ps)"
    by simp
  then obtain front todo where
    split: "segs = front @ todo" and ack: "ackno (receive_all ck bufspace st ps) = ackno_after (ackno st) front"
    and q: "unoutput (receive_all ck bufspace st ps) = filter (\<lambda>u. u \<in> set segs) todo"
    and nxt: "todo \<noteq> [] \<longrightarrow> hd todo \<notin> set segs"
    and outs: "conn_outputs (receive_all ck bufspace st ps) = conn_outputs st @ writes_of front"
    unfolding delivered_upto_def by blast
  have "todo = []"
  proof (rule ccontr)
    assume "todo \<noteq> []"
    then have "hd todo \<in> set segs" using split by (cases todo) auto
    with nxt \<open>todo \<noteq> []\<close> show False by simp
  qed
  with split ack q outs show ?thesis by simp
qed

lemma receive_all_in_order_example:
  "conn_outputs (receive_all ck0 (\<lambda>outs. 100) (ctcp_init ex_cfg)
                   [ex_seg 3 1 ACK [30, 31], ex_seg 1 1 ACK [10, 11]])
     = [[10, 11], [30, 31]]
   \<and> ackno (receive_all ck0 (\<lambda>outs. 100) (ctcp_init ex_cfg)
              [ex_seg 3 1 ACK [30, 31], ex_seg 1 1 ACK [10, 11]]) = 5"
proof -
  let ?segs = "[ex_seg 1 1 ACK [10, 11], ex_seg 3 1 ACK [30, 31]]"
  have a: "sorted_wrt seq_lt ?segs"
    by (simp add: ex_seg_def)
  have b: "contiguous (ackno (ctcp_init ex_cfg)) ?segs"
    by (simp add: ex_seg_def ctcp_init_def seg_data_len_def sizeof_ctcp_segment_def ACK_def FIN_def)
  have c: "\<forall>s\<in>set ?segs. \<not> corrupted ck0 s \<and> carries_data_or_fin s"
    by (simp add: ex_seg_def ck0_def corrupted_def carries_data_or_fin_def sizeof_ctcp_segment_def)
  have d: "\<forall>s\<in>set ?segs. \<forall>outs'. unat (seg_data_len s) \<le> (\<lambda>outs. 100) outs'"
    by (simp add: ex_seg_def seg_data_len_def sizeof_ctcp_segment_def)
  have e: "unoutput (ctcp_init ex_cfg) = []"
    by (simp add: ctcp_init_def)
  have f: "distinct [ex_seg 3 1 ACK [30, 31], ex_seg 1 1 ACK [10, 11]]"
          "set [ex_seg 3 1 ACK [30, 31], ex_seg 1 1 ACK [10, 11]] = set ?segs"
    by (auto simp: ex_seg_def)
  have g: "conn_outputs (ctcp_init ex_cfg) @ writes_of ?segs = [[10, 11], [30, 31]]"
          "ackno_after (ackno (ctcp_init ex_cfg)) ?segs = 5"
    by (simp_all add: ex_seg_def ctcp_init_def seg_data_len_def sizeof_ctcp_segment_def ACK_def FIN_def)
  from receive_all_in_order [OF a b c d e f] show ?thesis
    unfolding g by simp
qed

text \<open>
  When the loop of \<open>ctcp_output\<close> leaves through its \<open>return\<close>, nothing is sent,
  whatever has been delivered before.
\<close>

lemma ctcp_output_returned:
  assumes "output_walk bufspace (unoutput st) (ackno st) (conn_outputs st) False
             = (rest, a, outs, had_output, True)"
  shows "conn_sent (ctcp_output ck bufspace st) = conn_sent st"
  using assms by (simp add: ctcp_output_def)

text \<open>
  C1. Two segments of two bytes each arrive out of order at a fresh connection
  whose sink has room for three bytes. The second call of \<open>ctcp_receive\<close> delivers
  the segment with sequence number 1 and moves the acknowledgement number to 3;
  the segment with sequence number 3 does not fit, the loop of \<open>ctcp_output\<close>
  returns, and no acknowledgement is sent although a segment has been delivered.
\<close>

theorem ctcp_output_delivers_without_ack:
  "receive_all ck0 ex_bufspace (ctcp_init ex_cfg) [ex_seg 3 1 ACK [30, 31], ex_seg 1 1 ACK [10, 11]]
     = (ctcp_init ex_cfg)\<lparr> conn_outputs := [[10, 11]], ackno := 3,
                             unoutput := [ex_seg 3 1 ACK [30, 31]] \<rparr>
   \<and> conn_sent (receive_all ck0 ex_bufspace (ctcp_init ex_cfg)
                  [ex_seg 3 1 ACK [30, 31], ex_seg 1 1 ACK [10, 11]]) = []"
  by (simp add: ctcp_defs ex_ctcp_defs)

subsection \<open>Stale segments\<close>

lemma ucast_u16_u64_eq_20: "(ucast (l :: u16) :: u64) = 20 \<longleftrightarrow> l = 20"
proof -
  have "uint (ucast l :: u64) = uint l"
    by (rule uint_up_ucast) (simp add: is_up)
  then show ?thesis
    by (auto simp: word_uint_eq_iff)
qed

text \<open>The test of the code for "payload or FIN": the length field differs from 20.\<close>

lemma carries_data_or_fin_iff:
  "carries_data_or_fin s \<longleftrightarrow> seg_len s \<noteq> 20 \<or> seg_flags s AND FIN \<noteq> 0"
  by (simp add: carries_data_or_fin_def sizeof_ctcp_segment_def word_greater_zero_iff
      ucast_u16_u64_eq_20)

lemma ack_walk_dropWhile: "ack_walk a us = dropWhile (\<lambda>u. seg_seqno u < a) us"
  by (induction us) auto








subsection \<open>Acknowledgements\<close>

lemma dropWhile_filter_sorted:
  "sorted_wrt (\<lambda>x y. seg_seqno x < seg_seqno y) us \<Longrightarrow>
   dropWhile (\<lambda>u. seg_seqno u < a) us = filter (\<lambda>u. \<not> seg_seqno u < a) us"
proof (induction us)
  case Nil
  then show ?case by simp
next
  case (Cons u us)
  show ?case
  proof (cases "seg_seqno u < a")
    case True
    with Cons show ?thesis by simp
  next
    case False
    with Cons.prems have "\<forall>v\<in>set us. \<not> seg_seqno v < a"
      by (auto simp: not_less)
    then have "filter (\<lambda>u. \<not> seg_seqno u < a) us = us"
      by (simp add: filter_id_conv)
    with False show ?thesis by simp
  qed
qed

lemma insert_unoutput_fields:
  "unacked (insert_unoutput st s) = unacked st \<and> send_fin (insert_unoutput st s) = send_fin st
   \<and> receive_ack_fin (insert_unoutput st s) = receive_ack_fin st"
  by (simp add: insert_unoutput_def Let_def)

lemma deal_with_fin_fields:
  "unacked (deal_with_fin st s) = unacked st \<and> send_fin (deal_with_fin st s) = send_fin st
   \<and> receive_ack_fin (deal_with_fin st s) = receive_ack_fin st"
  by (simp add: deal_with_fin_def)

text \<open>
  When \<open>ctcp_receive\<close> processes a segment with the ACK flag (one that is not
  corrupted, not answered as stale and not a duplicate), it removes from the head
  of \<open>unacked\<close> the segments whose sequence number is below the acknowledgement
  number of the segment, up to the first that is not; in a queue of increasing
  sequence numbers these are exactly the segments below it. \<open>receive_ack_fin\<close>
  is set as soon as a FIN has been sent; the acknowledgement number is not looked
  at.
\<close>

lemma ctcp_receive_ack_processing:
  assumes ok: "\<not> corrupted ck segment"
      and fresh: "\<not> (seg_seqno segment < ackno state \<and> carries_data_or_fin segment)"
      and nodup: "\<not> is_duplicate state segment"
      and ack: "seg_flags segment AND ACK \<noteq> 0"
  shows "unacked (ctcp_receive ck bufspace state segment)
           = dropWhile (\<lambda>u. seg_seqno u < seg_ackno segment) (unacked state)
       \<and> (sorted_wrt (\<lambda>x y. seg_seqno x < seg_seqno y) (unacked state) \<longrightarrow>
            unacked (ctcp_receive ck bufspace state segment)
              = filter (\<lambda>u. \<not> seg_seqno u < seg_ackno segment) (unacked state))
       \<and> receive_ack_fin (ctcp_receive ck bufspace state segment)
           = (receive_ack_fin state \<or> send_fin state)"
proof -
  let ?s1 = "deal_with_ack state segment"
  let ?s3 = "insert_unoutput (deal_with_fin ?s1 segment) segment"
  have run: "ctcp_receive ck bufspace state segment = ctcp_output ck bufspace ?s3"
    using ok fresh nodup by (auto simp add: ctcp_receive_def Let_def)
  have keep: "unacked (ctcp_output ck bufspace ?s3) = unacked ?s1"
             "receive_ack_fin (ctcp_output ck bufspace ?s3) = receive_ack_fin ?s1"
    using ctcp_output_fields [OF refl, of ck bufspace ?s3]
    by (simp_all add: insert_unoutput_fields deal_with_fin_fields)
  have u: "unacked ?s1 = dropWhile (\<lambda>u. seg_seqno u < seg_ackno segment) (unacked state)"
    using ack by (simp add: deal_with_ack_def Let_def ack_walk_dropWhile)
  have f: "receive_ack_fin ?s1 = (receive_ack_fin state \<or> send_fin state)"
    using ack by (simp add: deal_with_ack_def Let_def)
  show ?thesis
    unfolding run keep u f by (simp add: dropWhile_filter_sorted)
qed

text \<open>The acknowledgement of the ten bytes at the connection that has sent its FIN.\<close>

lemma ctcp_receive_ack_processing_example:
  "unacked (ctcp_receive ck0 ex_bufspace ex_sent_fin (ex_seg 1 11 ACK [])) = [ex_seg 11 1 FIN []]
   \<and> receive_ack_fin (ctcp_receive ck0 ex_bufspace ex_sent_fin (ex_seg 1 11 ACK []))"
proof -
  have a: "\<not> corrupted ck0 (ex_seg 1 11 ACK [])"
    by (simp add: ctcp_defs ex_ctcp_defs ex_sent_fin_def)
  have b: "\<not> (seg_seqno (ex_seg 1 11 ACK []) < ackno ex_sent_fin
              \<and> carries_data_or_fin (ex_seg 1 11 ACK []))"
    by (simp add: ctcp_defs ex_ctcp_defs ex_sent_fin_def)
  have c: "\<not> is_duplicate ex_sent_fin (ex_seg 1 11 ACK [])"
    by (simp add: ctcp_defs ex_ctcp_defs ex_sent_fin_def)
  have d: "seg_flags (ex_seg 1 11 ACK []) AND ACK \<noteq> 0"
    by (simp add: ctcp_defs ex_ctcp_defs ex_sent_fin_def)
  have e: "sorted_wrt (\<lambda>x y. seg_seqno x < seg_seqno y) (unacked ex_sent_fin)"
    by (simp add: ctcp_defs ex_ctcp_defs ex_sent_fin_def)
  have f: "filter (\<lambda>u. \<not> seg_seqno u < seg_ackno (ex_seg 1 11 ACK [])) (unacked ex_sent_fin)
           = [ex_seg 11 1 FIN []]"
    by (simp add: ctcp_defs ex_ctcp_defs ex_sent_fin_def)
  have g: "send_fin ex_sent_fin"
    by (simp add: ctcp_defs ex_ctcp_defs ex_sent_fin_def)
  from ctcp_receive_ack_processing [OF a b c d, of ex_bufspace] e f g
  show ?thesis by metis
qed

text \<open>
  C5. The connection has sent ten bytes (sequence number 1) and its FIN (sequence
  number 11) and receives an acknowledgement with the number 11. The ten bytes
  leave \<open>unacked\<close>, as they should; the FIN, which the number 11 does not cover,
  stays in the queue, and \<open>receive_ack_fin\<close> is set all the same: the code
  records the acknowledgement of a FIN that has not been acknowledged.
\<close>

theorem ctcp_receive_fin_acked_too_early:
  "send_fin ex_sent_fin \<and> \<not> receive_ack_fin ex_sent_fin
   \<and> unacked ex_sent_fin = [ex_seg 1 1 ACK [1, 2, 3, 4, 5, 6, 7, 8, 9, 10], ex_seg 11 1 FIN []]
   \<and> receive_ack_fin (ctcp_receive ck0 ex_bufspace ex_sent_fin (ex_seg 1 11 ACK []))
   \<and> unacked (ctcp_receive ck0 ex_bufspace ex_sent_fin (ex_seg 1 11 ACK [])) = [ex_seg 11 1 FIN []]"
  by (simp add: ctcp_defs ex_ctcp_defs ex_sent_fin_def)

subsection \<open>Bytes in flight\<close>

lemma uint_ucast_u16_u64: "uint (ucast (l :: u16) :: u64) = uint l"
  by (rule uint_up_ucast) (simp add: is_up)

lemma down16:
  "(k :: int) mod 2 ^ 32 mod 2 ^ 16 = k mod 2 ^ 16"
  "(k :: int) mod 2 ^ 64 mod 2 ^ 16 = k mod 2 ^ 16"
  by (rule mod_mod_cancel, simp)+

lemma uint_ucast_u32_u16: "uint (ucast (w :: u32) :: u16) = uint w mod 2 ^ 16"
  by (simp add: unsigned_ucast_eq take_bit_eq_mod)

lemma uint_ucast_u64_u16: "uint (ucast (w :: u64) :: u16) = uint w mod 2 ^ 16"
  by (simp add: unsigned_ucast_eq take_bit_eq_mod)

text \<open>The two additions of \<open>on_air\<close>, read as integers.\<close>

lemma on_air_arith:
  fixes a b :: u32 and l :: u16
  shows "uint (ucast ((ucast (ucast (a - b) :: u16) :: u64) + ((ucast l :: u64) - 20)) :: u16)
           = (uint a + (uint l - 20) - uint b) mod 2 ^ 16"
proof -
  let ?d = "(uint a - uint b) mod 2 ^ 16"
  have d0: "uint (a - b) = (uint a - uint b) mod 2 ^ 32"
    by (simp add: uint_word_ariths)
  have d1: "uint (ucast (ucast (a - b) :: u16) :: u64) = ?d"
    by (simp only: uint_ucast_u16_u64 uint_ucast_u32_u16 d0 down16)
  have d2: "uint ((ucast l :: u64) - 20) = (uint l - 20) mod 2 ^ 64"
    by (simp add: uint_word_ariths uint_ucast_u16_u64)
  have d3: "uint ((ucast (ucast (a - b) :: u16) :: u64) + ((ucast l :: u64) - 20))
              = (?d + (uint l - 20) mod 2 ^ 64) mod 2 ^ 64"
    unfolding d1 [symmetric] d2 [symmetric] by (simp add: uint_word_ariths)
  have "uint (ucast ((ucast (ucast (a - b) :: u16) :: u64) + ((ucast l :: u64) - 20)) :: u16)
          = (?d + (uint l - 20) mod 2 ^ 64) mod 2 ^ 64 mod 2 ^ 16"
    by (simp only: uint_ucast_u64_u16 d3)
  also have "\<dots> = (?d + (uint l - 20) mod 2 ^ 64) mod 2 ^ 16"
    by (rule down16)
  also have "\<dots> = (?d mod 2 ^ 16 + (uint l - 20) mod 2 ^ 64 mod 2 ^ 16) mod 2 ^ 16"
    by (rule mod_add_eq [symmetric])
  also have "\<dots> = ((uint a - uint b) mod 2 ^ 16 + (uint l - 20) mod 2 ^ 16) mod 2 ^ 16"
    by (simp only: down16 mod_mod_trivial)
  also have "\<dots> = ((uint a - uint b) + (uint l - 20)) mod 2 ^ 16"
    by (rule mod_add_eq)
  also have "(uint a - uint b) + (uint l - 20) = uint a + (uint l - 20) - uint b"
    by simp
  finally show ?thesis .
qed

text \<open>
  \<open>on_air\<close> returns 0 for an empty queue and otherwise
  (last.seqno + last.data\_len) - first.seqno reduced modulo \<open>2 ^ 16\<close>, the width of
  its result, where data\_len is the length field less the 20 bytes of the header;
  and \<open>ctcp_read\<close> sends nothing and leaves the state as it is when the value
  \<open>on_air\<close> returns is at least \<open>send_window\<close> or a FIN has been sent.
\<close>

lemma on_air_modulo:
  "(unacked state = [] \<longrightarrow> on_air state = 0)
   \<and> (unacked state \<noteq> [] \<longrightarrow>
        uint (on_air state)
          = (uint (seg_seqno (last (unacked state)))
             + (uint (seg_len (last (unacked state))) - 20)
             - uint (seg_seqno (hd (unacked state)))) mod 2 ^ 16)
   \<and> (send_window (cfg state) \<le> on_air state \<or> send_fin state \<longrightarrow>
        ctcp_read ck input now state = state)"
proof (intro conjI impI)
  assume "unacked state = []"
  then show "on_air state = 0"
    by (simp add: on_air_def)
next
  assume ne: "unacked state \<noteq> []"
  have "on_air state
          = (ucast ((ucast (ucast (seg_seqno (last (unacked state))
                                    - seg_seqno (hd (unacked state))) :: u16) :: u64)
                    + ((ucast (seg_len (last (unacked state))) :: u64) - 20)) :: u16)"
    using ne by (simp add: on_air_def Let_def sizeof_ctcp_segment_def)
  then show "uint (on_air state)
          = (uint (seg_seqno (last (unacked state)))
             + (uint (seg_len (last (unacked state))) - 20)
             - uint (seg_seqno (hd (unacked state)))) mod 2 ^ 16"
    by (simp only: on_air_arith)
next
  assume "send_window (cfg state) \<le> on_air state \<or> send_fin state"
  then show "ctcp_read ck input now state = state"
    by (auto simp: ctcp_read_def)
qed

text \<open>
  The connection \<open>ex_window_open\<close> is the one that 44 reads of 1440 bytes and one
  of 1439 bytes lead to from \<open>ctcp_init\<close>: before each of them \<open>on_air\<close> is below
  the send window.
\<close>

lemma uint_seq: "k \<le> 45 \<Longrightarrow> uint (1 + 1440 * of_nat k :: u32) = 1 + 1440 * int k"
proof -
  assume k: "k \<le> 45"
  have "(1 + 1440 * of_nat k :: u32) = word_of_int (1 + 1440 * int k)"
    by simp
  then have "uint (1 + 1440 * of_nat k :: u32) = (1 + 1440 * int k) mod 2 ^ 32"
    by (simp only: uint_word_of_int) simp
  also have "\<dots> = 1 + 1440 * int k"
    using k by (intro mod_pos_pos_trivial) auto
  finally show ?thesis .
qed

lemma reads_full:
  "n \<le> 44 \<Longrightarrow>
   (ctcp_read ck0 (Data (replicate 1440 0)) 0 ^^ n) (ctcp_init (ex_cfg\<lparr> send_window := 64800 \<rparr>))
     = (ctcp_init (ex_cfg\<lparr> send_window := 64800 \<rparr>))
         \<lparr> conn_sent := map (\<lambda>i. ex_data_seg (1 + 1440 * of_nat i)) [0 ..< n],
           seqno := 1 + 1440 * of_nat n,
           unacked := map (\<lambda>i. ex_data_seg (1 + 1440 * of_nat i)) [0 ..< n] \<rparr>"
proof (induction n)
  case 0
  then show ?case by (simp add: ctcp_init_def)
next
  case (Suc n)
  let ?f = "\<lambda>i. ex_data_seg (1 + 1440 * of_nat i)"
  let ?st = "(ctcp_init (ex_cfg\<lparr> send_window := 64800 \<rparr>))
         \<lparr> conn_sent := map ?f [0 ..< n], seqno := 1 + 1440 * of_nat n, unacked := map ?f [0 ..< n] \<rparr>"
  from Suc have n: "n \<le> 43" by simp
  have air: "uint (on_air ?st) = 1440 * int n"
  proof (cases n)
    case 0
    then show ?thesis by (simp add: on_air_def)
  next
    case (Suc k)
    then have ne: "unacked ?st \<noteq> []" by simp
    have h: "hd (unacked ?st) = ex_data_seg 1"
      using Suc by (simp del: upt_Suc add: hd_map)
    have l: "last (unacked ?st) = ex_data_seg (1 + 1440 * of_nat k)"
      using Suc by (simp add: last_map)
    have "uint (on_air ?st) = (uint (1 + 1440 * of_nat k :: u32) + (1460 - 20) - 1) mod 2 ^ 16"
      using on_air_modulo [of ?st] ne unfolding h l by (simp add: ex_data_seg_def)
    also have "\<dots> = (1440 * int n) mod 2 ^ 16"
      using n Suc by (simp add: uint_seq)
    also have "\<dots> = 1440 * int n"
      using n by (intro mod_pos_pos_trivial) auto
    finally show ?thesis .
  qed
  have lt: "\<not> send_window (cfg ?st) \<le> on_air ?st"
    using n air by (simp add: word_le_def ex_cfg_def ctcp_init_def)
  have step: "ctcp_read ck0 (Data (replicate 1440 0)) 0 ?st
               = (ctcp_init (ex_cfg\<lparr> send_window := 64800 \<rparr>))
         \<lparr> conn_sent := map ?f [0 ..< Suc n], seqno := 1 + 1440 * of_nat (Suc n),
           unacked := map ?f [0 ..< Suc n] \<rparr>"
    using lt
    by (simp add: ctcp_read_def send_data_segment_def Let_def ex_data_seg_def ck0_def
        sizeof_ctcp_segment_def ACK_def ctcp_init_def ex_cfg_def)
  show ?case
    using Suc.IH n step by simp
qed

lemma ex_window_open_reached:
  "ex_window_open
     = ctcp_read ck0 (Data (replicate 1439 0)) 0
         ((ctcp_read ck0 (Data (replicate 1440 0)) 0 ^^ 44)
            (ctcp_init (ex_cfg\<lparr> send_window := 64800 \<rparr>)))"
proof -
  let ?f = "\<lambda>i. ex_data_seg (1 + 1440 * of_nat i)"
  let ?st = "(ctcp_init (ex_cfg\<lparr> send_window := 64800 \<rparr>))
         \<lparr> conn_sent := map ?f [0 ..< 44], seqno := 1 + 1440 * of_nat 44, unacked := map ?f [0 ..< 44] \<rparr>"
  have ne: "unacked ?st \<noteq> []" by simp
  have h: "hd (unacked ?st) = ex_data_seg 1"
    by (simp add: hd_map upt_conv_Cons [of 0])
  have l: "last (unacked ?st) = ex_data_seg (1 + 1440 * of_nat 43)"
    by (simp add: last_map)
  have "uint (on_air ?st) = (uint (1 + 1440 * of_nat 43 :: u32) + (1460 - 20) - 1) mod 2 ^ 16"
    using on_air_modulo [of ?st] ne unfolding h l by (simp add: ex_data_seg_def)
  then have air: "uint (on_air ?st) = 63360"
    by simp
  have lt: "\<not> send_window (cfg ?st) \<le> on_air ?st"
    using air by (simp add: word_le_def ex_cfg_def ctcp_init_def)
  have "ctcp_read ck0 (Data (replicate 1439 0)) 0 ?st = ex_window_open"
    using lt
    by (simp add: ctcp_read_def send_data_segment_def Let_def ex_seg_def ck0_def
        sizeof_ctcp_segment_def ACK_def ctcp_init_def ex_cfg_def ex_window_open_def ex_flight45_def)
  then show ?thesis
    using reads_full [of 44] by simp
qed

lemma ex_window_open_ends:
  "hd (unacked ex_window_open) = ex_data_seg 1"
  "last (unacked ex_window_open) = ex_seg 63361 1 ACK (replicate 1439 0)"
  "unacked ex_window_open \<noteq> []"
  by (simp_all add: ex_window_open_def ex_flight45_def hd_map hd_append upt_conv_Cons [of 0])

lemma ex_window_open_on_air: "on_air ex_window_open = 64799"
  by (simp add: on_air_def Let_def ex_window_open_ends)
     (simp add: ex_data_seg_def ex_seg_def sizeof_ctcp_segment_def)

lemma ex_window_open_fields:
  "send_window (cfg ex_window_open) = 64800" "send_fin ex_window_open = False"
  "conn_sent ex_window_open = ex_flight45" "seqno ex_window_open = 64800"
  "ackno ex_window_open = 1" "recv_window (cfg ex_window_open) = 1440"
  "unacked ex_window_open = ex_flight45"
  by (simp_all add: ex_window_open_def ctcp_init_def ex_cfg_def)

lemma ex_window_past_eq:
  "ex_window_past = ex_window_open\<lparr> conn_sent := ex_flight45 @ [ex_data_seg 64800], seqno := 66240,
                                    unacked := ex_flight45 @ [ex_data_seg 64800] \<rparr>"
  by (simp add: ex_window_past_def ctcp_read_def ex_window_open_on_air ex_window_open_fields
      send_data_segment_def Let_def ex_data_seg_def ck0_def sizeof_ctcp_segment_def ACK_def)
     (simp add: ex_window_open_def ctcp_init_def)

lemma ex_window_past_ends:
  "hd (unacked ex_window_past) = ex_data_seg 1"
  "last (unacked ex_window_past) = ex_data_seg 64800"
  "unacked ex_window_past \<noteq> []"
  using ex_window_open_ends
  by (simp_all add: ex_window_past_eq ex_window_open_fields hd_append)

text \<open>
  C9. A connection with a send window of 64800 reads 1440 bytes 44 times and then
  1439 bytes; nothing is acknowledged. With 64799 bytes in flight \<open>ctcp_read\<close>
  sends a further segment of 1440 bytes, as it may. Now 66239 bytes are in flight, more
  than the 16 bits of the result of \<open>on_air\<close> hold: \<open>on_air\<close> returns 703 instead
  of (last.seqno + last.data\_len) - first.seqno = 66239, and since 703 is below the
  send window the next \<open>ctcp_read\<close> sends yet another segment.
\<close>

theorem on_air_wraps_past_window:
  "ex_window_open
     = ctcp_read ck0 (Data (replicate 1439 0)) 0
         ((ctcp_read ck0 (Data (replicate 1440 0)) 0 ^^ 44)
            (ctcp_init (ex_cfg\<lparr> send_window := 64800 \<rparr>)))
   \<and> send_window (cfg ex_window_open) = 64800
   \<and> on_air ex_window_open = 64799
   \<and> ex_window_past = ctcp_read ck0 (Data (replicate 1440 0)) 0 ex_window_open
   \<and> uint (seg_seqno (last (unacked ex_window_past)))
       + (uint (seg_len (last (unacked ex_window_past))) - 20)
       - uint (seg_seqno (hd (unacked ex_window_past))) = 66239
   \<and> on_air ex_window_past = 703
   \<and> send_window (cfg ex_window_past) = 64800
   \<and> conn_sent (ctcp_read ck0 (Data [1]) 0 ex_window_past)
       = conn_sent ex_window_past @ [ex_seg 66240 1 ACK [1]]"
proof -
  have a: "on_air ex_window_past = 703"
    by (simp add: on_air_def Let_def ex_window_past_ends)
       (simp add: ex_data_seg_def sizeof_ctcp_segment_def)
  have b: "send_window (cfg ex_window_past) = 64800" "send_fin ex_window_past = False"
          "seqno ex_window_past = 66240" "ackno ex_window_past = 1"
          "recv_window (cfg ex_window_past) = 1440"
    by (simp_all add: ex_window_past_eq ex_window_open_fields)
  have c: "conn_sent (ctcp_read ck0 (Data [1]) 0 ex_window_past)
             = conn_sent ex_window_past @ [ex_seg 66240 1 ACK [1]]"
    by (simp add: ctcp_read_def a b send_data_segment_def Let_def ex_seg_def ck0_def
        sizeof_ctcp_segment_def ACK_def)
  have d: "uint (seg_seqno (last (unacked ex_window_past)))
       + (uint (seg_len (last (unacked ex_window_past))) - 20)
       - uint (seg_seqno (hd (unacked ex_window_past))) = 66239"
    by (simp add: ex_window_past_ends) (simp add: ex_data_seg_def)
  have e: "send_window (cfg ex_window_open) = 64800
       \<and> on_air ex_window_open = 64799
       \<and> ex_window_past = ctcp_read ck0 (Data (replicate 1440 0)) 0 ex_window_open"
    by (simp add: ex_window_open_on_air ex_window_open_fields) (simp add: ex_window_past_def)
  show ?thesis
    using a b(1) c d e ex_window_open_reached by blast
qed


section \<open>Properties of the congestion controller\<close>

subsection \<open>PROBE\_RTT\<close>

lemma bbr_reset_mode_not_probe_rtt: "mode (bbr_reset_mode rnd bbr) \<noteq> BBR_PROBE_RTT"
  by (simp add: bbr_reset_mode_def bbr_reset_startup_mode_def bbr_reset_probe_bw_mode_def)

text \<open>
  The test that leaves \<open>PROBE_RTT\<close> asks whether the deadline is still ahead, not
  whether it has passed. A call of \<open>bbr_update_min_rtt\<close> that enters the mode sets
  the deadline 200 ms ahead and so leaves the mode again before it returns, unless
  more than 200 ms go by between its two readings of the clock.
\<close>

lemma bbr_update_min_rtt_never_holds:
  assumes "mode bbr \<noteq> BBR_PROBE_RTT" and "t_check \<le> t_enter + 200"
  shows "mode (bbr_update_min_rtt rnd t_stamp t_enter t_check bbr rtt_sample) \<noteq> BBR_PROBE_RTT"
  using assms
  by (simp add: bbr_update_min_rtt_def bbr_save_cwnd_def bbr_probe_rtt_mode_ms_def Let_def
      bbr_reset_mode_not_probe_rtt split: prod.splits)

text \<open>
  C7. The controller is in \<open>STARTUP\<close> with a minimum round-trip time of 40; at
  time 1000 a sample of 50 arrives. The filter counts as expired, the cwnd of 4 is
  saved and the deadline set to 1200, and the same call, still at time 1000, leaves
  \<open>PROBE_RTT\<close> again: the state it returns is in \<open>STARTUP\<close> with the gains of
  \<open>STARTUP\<close>, so the controller has spent no time in \<open>PROBE_RTT\<close>.
\<close>

theorem bbr_probe_rtt_left_at_once:
  "bbr_update_min_rtt 0 1000 1000 1000 ex_bbr 50
     = ex_bbr\<lparr> min_rtt_us := 50, RTpropFilter := replicate 9 0x7FFFFFFF @ [50],
               prior_cwnd := 4, probe_rtt_done_stamp := 1200 \<rparr>
   \<and> mode (bbr_update_min_rtt 0 1000 1000 1000 ex_bbr 50) = BBR_STARTUP"
  by code_simp

subsection \<open>The gain cycle\<close>

text \<open>An advance leaves the index between 0 and 6: phase 7 is never entered by it.\<close>

lemma bbr_advance_cycle_phase_range:
  assumes "bbr_advance_cycle_phase bbr = Some bbr'"
  shows "0 \<le> cycle_idx bbr' \<and> cycle_idx bbr' \<le> 6"
proof -
  have "(cycle_idx bbr + 1) smod 7 \<in> {- \<bar>7\<bar> + 1 .. \<bar>7\<bar> - 1}"
    by (rule smod_int_range) simp
  with assms show ?thesis
    by (auto simp: bbr_advance_cycle_phase_def CYCLE_LEN_def Let_def split: if_splits)
qed

text \<open>The index on entry to \<open>PROBE_BW\<close> is \<open>CYCLE_LEN - 1 - rand() % 7\<close>, the cwnd gain 2.\<close>

lemma bbr_reset_probe_bw_mode_entry:
  "cycle_idx (bbr_reset_probe_bw_mode rnd bbr) = CYCLE_LEN - 1 - int (rnd mod 7)
   \<and> cwnd_gain (bbr_reset_probe_bw_mode rnd bbr) = 2
   \<and> mode (bbr_reset_probe_bw_mode rnd bbr) = BBR_PROBE_BW"
  by (simp add: bbr_reset_probe_bw_mode_def bbr_cycle_rand_def bbr_cwnd_gain_def)

text \<open>
  C8. The table of gains holds 1, 0, 1, 1, 1, 1, 1, 1, since \<open>5 / 4\<close> and \<open>3 / 4\<close>
  are divided as integers. Entered at index 7 (\<open>rand()\<close> returning 0) with the
  pacing gain \<open>BBR_UNIT\<close>, the controller goes through the indices 1, 2, 3, 4, 5,
  6, 0, 1 in its next eight rounds, with the pacing gains 0, 1, 1, 1, 1, 1, 1, 0:
  the index is advanced modulo 7, so it does not come back to 7, and the gains
  5/4 and 3/4 never occur.
\<close>

theorem bbr_cycle_skips_last_phase:
  "bbr_pacing_gain = [1, 0, 1, 1, 1, 1, 1, 1]
   \<and> cycle_idx ex_probe_bw = 7
   \<and> map (\<lambda>n. map_option (\<lambda>b. (cycle_idx b, pacing_gain b)) (cycle_rounds n ex_probe_bw))
         [1, 2, 3, 4, 5, 6, 7, 8]
       = [Some (1, 0), Some (2, 1), Some (3, 1), Some (4, 1), Some (5, 1), Some (6, 1),
          Some (0, 1), Some (1, 0)]"
  by code_simp

end
